(* ===== verification/Prelude.thy ===== *)
theory Prelude
  imports Complex_Main "HOL-Library.Word"
begin

text \<open>
  Shared vocabulary of the development: bytes and byte strings, the big-endian
  reading and writing of unsigned integers that the wire format uses for every
  length and number field, the conversion between Go string bytes and HOL
  characters, and the error monad (\<open>'e + 'a\<close>, \<open>Inl\<close> the error) with its
  list traversal \<open>mapM\<close>.  The lemmas here are declared into the collection
  \<open>wire_simps\<close> or \<open>[simp]\<close> so that the component proofs can use them by name.
\<close>

named_theorems wire_simps "facts about byte-level encodings shared by the codec proofs"

type_synonym byte = "8 word"
type_synonym bytes = "byte list"

section \<open>Big-endian unsigned integers\<close>

text \<open>
  \<open>be_bytes n x\<close> writes the low \<open>8 * n\<close> bits of \<open>x\<close> as \<open>n\<close> bytes, most
  significant first (Go's \<open>binary.BigEndian.PutUintN\<close>: the value is truncated to
  the field's width, it never fails).  \<open>be_val\<close> reads such a field back.
\<close>

fun be_bytes :: "nat \<Rightarrow> nat \<Rightarrow> bytes" where
  "be_bytes 0 x = []"
| "be_bytes (Suc n) x = be_bytes n (x div 256) @ [of_nat (x mod 256)]"

definition be_val :: "bytes \<Rightarrow> nat" where
  "be_val bs = foldl (\<lambda>acc b. acc * 256 + unat b) 0 bs"

lemma length_be_bytes [simp, wire_simps]: "length (be_bytes n x) = n"
  by (induction n arbitrary: x) simp_all

lemma be_val_snoc [simp]: "be_val (bs @ [b]) = be_val bs * 256 + unat b"
  by (simp add: be_val_def)

lemma be_val_Nil [simp]: "be_val [] = 0"
  by (simp add: be_val_def)

lemma be_val_be_bytes [wire_simps]: "be_val (be_bytes n x) = x mod 256 ^ n"
proof (induction n arbitrary: x)
  case 0
  then show ?case by simp
next
  case (Suc n)
  have "x div 256 mod 256 ^ n * 256 + x mod 256 = x mod (256 * 256 ^ n)"
    by (simp add: mod_mult2_eq)
  with Suc show ?case by (simp add: unat_of_nat)
qed

lemma be_val_bound [wire_simps]: "be_val bs < 256 ^ length bs"
proof (induction bs rule: rev_induct)
  case Nil
  then show ?case by simp
next
  case (snoc b bs)
  have "unat b < 256"
    using unsigned_less [of b] by simp
  with snoc show ?case by simp
qed

lemma be_val_be_bytes_small [simp, wire_simps]: "x < 256 ^ n \<Longrightarrow> be_val (be_bytes n x) = x"
  by (simp add: be_val_be_bytes)

text \<open>
  Proofs about encoders keep \<open>be_bytes\<close> folded and read it back with the lemmas
  above; a concrete field is computed with \<open>be_bytes.simps\<close>.
\<close>

declare be_bytes.simps [simp del]

lemma be_bytes_4 [wire_simps]:
  "be_bytes 4 x =
     [of_nat (x div 256 div 256 div 256 mod 256), of_nat (x div 256 div 256 mod 256),
      of_nat (x div 256 mod 256), of_nat (x mod 256)]"
proof -
  have "(4::nat) = Suc (Suc (Suc (Suc 0)))" by simp
  then show ?thesis by (simp only: be_bytes.simps append.simps)
qed

text \<open>
  \<open>tag_byte k\<close> is the byte with value \<open>k\<close>, the way a MessagePack tag that
  carries a small payload inline (fixint, fixstr, fixarray, fixmap) is built.
\<close>

definition tag_byte :: "nat \<Rightarrow> byte" where
  "tag_byte k = of_nat k"

lemma unat_tag_byte [simp, wire_simps]: "k < 256 \<Longrightarrow> unat (tag_byte k) = k"
  by (simp add: tag_byte_def unat_of_nat)

lemma unat_word_of_int_byte [simp, wire_simps]: "unat (word_of_int i :: byte) = nat (i mod 256)"
  by (simp add: unat_eq_nat_uint uint_word_of_int)

lemma neg_mod_eq [wire_simps]: "(0::int) < m \<Longrightarrow> - m \<le> i \<Longrightarrow> i < 0 \<Longrightarrow> i mod m = i + m"
proof -
  assume a: "0 < m" "- m \<le> i" "i < 0"
  have "i mod m = (i + m) mod m" by simp
  also have "\<dots> = i + m" using a by (intro mod_pos_pos_trivial) auto
  finally show ?thesis .
qed

section \<open>Go strings as bytes\<close>

text \<open>
  A Go \<open>string\<close> is a sequence of bytes; in HOL it is a \<open>string\<close>, a list of
  8-bit characters.  The wire carries the bytes unchanged.
\<close>

definition byte_of_char :: "char \<Rightarrow> byte" where
  "byte_of_char c = of_nat (of_char c)"

definition char_of_byte :: "byte \<Rightarrow> char" where
  "char_of_byte b = char_of (unat b)"

lemma char_of_byte_of_char [simp, wire_simps]: "char_of_byte (byte_of_char c) = c"
  by (simp add: byte_of_char_def char_of_byte_def unat_of_nat)

lemma comp_char_of_byte_of_char [simp, wire_simps]: "char_of_byte \<circ> byte_of_char = id"
  by (simp add: fun_eq_iff)

section \<open>The error monad\<close>

text \<open>
  Errors are values: a computation that can fail returns \<open>'e + 'a\<close>.  \<open>mapM\<close>
  applies a fallible function to every element of a list and stops at the first
  error, as a Go loop with \<open>if err != nil { return err }\<close> does.
\<close>

fun mapM :: "('a \<Rightarrow> 'e + 'b) \<Rightarrow> 'a list \<Rightarrow> 'e + 'b list" where
  "mapM f [] = Inr []"
| "mapM f (x # xs) =
     (case f x of Inl e \<Rightarrow> Inl e
      | Inr y \<Rightarrow> (case mapM f xs of Inl e \<Rightarrow> Inl e | Inr ys \<Rightarrow> Inr (y # ys)))"

lemma mapM_cong [fundef_cong]:
  "xs = ys \<Longrightarrow> (\<And>x. x \<in> set ys \<Longrightarrow> f x = g x) \<Longrightarrow> mapM f xs = mapM g ys"
  by (induction ys arbitrary: xs) (auto split: sum.splits)

lemma mapM_Inr_map [wire_simps]:
  "(\<And>x. x \<in> set xs \<Longrightarrow> f x = Inr (g x)) \<Longrightarrow> mapM f xs = Inr (map g xs)"
  by (induction xs) simp_all

lemma mapM_map [wire_simps]: "mapM f (map g xs) = mapM (f \<circ> g) xs"
  by (induction xs) (simp_all split: sum.split)

lemma mapM_Inr_length [wire_simps]: "mapM f xs = Inr ys \<Longrightarrow> length ys = length xs"
  by (induction xs arbitrary: ys) (auto split: sum.splits)

lemma mapM_Inr_list_all2:
  "mapM f xs = Inr ys \<Longrightarrow> list_all2 (\<lambda>x y. f x = Inr y) xs ys"
  by (induction f xs arbitrary: ys rule: mapM.induct) (auto split: sum.splits)

lemma list_all2_list_all_right:
  "list_all2 P xs ys \<Longrightarrow> (\<And>x y. x \<in> set xs \<Longrightarrow> P x y \<Longrightarrow> Q y) \<Longrightarrow> list_all Q ys"
  by (induction rule: list_all2_induct) auto

end
