(* ===== verification/MsgPack.thy ===== *)
theory MsgPack
  imports Prelude
begin

text \<open>
  The binary value encoding of the packet codec (spec section 4.1 and the tag table of
  section 6): a MessagePack-compatible, self-describing encoding of one value.  The
  codec package itself is not among the repository's sources (only its test,
  \<^verbatim>\<open>src/packet/packet_test.go\<close>, is), so the definitions here follow the spec.
  It holds the universal value type \<open>val\<close>, the codec's error type, the encoder
  \<open>encode_value\<close> (narrowest tag first), the decoder \<open>decode_value\<close> with a depth
  fuel, and the theorems that make them agree: decoding an encoding gives the value
  back (records arrive as mappings), decoding consumes exactly the encoded bytes,
  and the fuel that \<open>decode\<close> supplies is always enough.
\<close>

section \<open>Values and errors\<close>

text \<open>
  \<open>val\<close> is the closed payload type of spec section 3.  Integers are mathematical
  (\<open>int\<close>); which Go widths they fit is checked when binding to a registered shape.
  Floats are carried as their IEEE-754 bit patterns, which is all the codec touches.
  A mapping is an association list from string keys; a record is a named, ordered
  list of fields.
\<close>

datatype val =
    VNil
  | VBool bool
  | VInt int
  | VF32 "32 word"
  | VF64 "64 word"
  | VStr string
  | VArr "val list"
  | VMap "(string \<times> val) list"
  | VRec string "(string \<times> val) list"

text \<open>
  The error taxonomy of spec section 7.  \<open>EmptyFrame\<close> is the protocol error for a
  frame whose length field is 0 (section 3 names it an error without naming it);
  \<open>DepthExceeded\<close> is the decoder running out of its depth fuel, which the theorem
  \<open>decode_fuel_enough\<close> shows never happens in \<open>decode\<close>.
\<close>

datatype error =
    Truncated
  | UnknownTag byte
  | Overflow
  | InvalidEncoding
  | MissingField string
  | UnknownPacketId byte
  | ShapeMismatch
  | EmptyFrame
  | DepthExceeded

section \<open>Encoding\<close>

text \<open>Integers take the narrowest MessagePack form that holds them.\<close>

definition encode_int :: "int \<Rightarrow> bytes" where
  "encode_int i =
     (if 0 \<le> i then
        (if i < 128 then [tag_byte (nat i)]
         else if i < 2 ^ 8 then 0xCC # be_bytes 1 (nat i)
         else if i < 2 ^ 16 then 0xCD # be_bytes 2 (nat i)
         else if i < 2 ^ 32 then 0xCE # be_bytes 4 (nat i)
         else 0xCF # be_bytes 8 (nat i))
      else if -32 \<le> i then [tag_byte (nat (i + 256))]
      else if - (2 ^ 7) \<le> i then 0xD0 # be_bytes 1 (nat (i mod 2 ^ 8))
      else if - (2 ^ 15) \<le> i then 0xD1 # be_bytes 2 (nat (i mod 2 ^ 16))
      else if - (2 ^ 31) \<le> i then 0xD2 # be_bytes 4 (nat (i mod 2 ^ 32))
      else 0xD3 # be_bytes 8 (nat (i mod 2 ^ 64)))"

definition str_header :: "nat \<Rightarrow> bytes" where
  "str_header n =
     (if n < 32 then [tag_byte (0xA0 + n)]
      else if n < 2 ^ 8 then 0xD9 # be_bytes 1 n
      else if n < 2 ^ 16 then 0xDA # be_bytes 2 n
      else 0xDB # be_bytes 4 n)"

definition arr_header :: "nat \<Rightarrow> bytes" where
  "arr_header n =
     (if n < 16 then [tag_byte (0x90 + n)]
      else if n < 2 ^ 16 then 0xDC # be_bytes 2 n
      else 0xDD # be_bytes 4 n)"

definition map_header :: "nat \<Rightarrow> bytes" where
  "map_header n =
     (if n < 16 then [tag_byte (0x80 + n)]
      else if n < 2 ^ 16 then 0xDE # be_bytes 2 n
      else 0xDF # be_bytes 4 n)"

definition encode_str :: "string \<Rightarrow> bytes" where
  "encode_str s = str_header (length s) @ map byte_of_char s"

text \<open>
  A record goes on the wire as the mapping from its field names to its field values,
  in field order: the wire form does not tell a record from a mapping.
\<close>

fun encode_value :: "val \<Rightarrow> bytes" where
  "encode_value VNil = [0xC0]"
| "encode_value (VBool b) = [if b then 0xC3 else 0xC2]"
| "encode_value (VInt i) = encode_int i"
| "encode_value (VF32 x) = 0xCA # be_bytes 4 (unat x)"
| "encode_value (VF64 x) = 0xCB # be_bytes 8 (unat x)"
| "encode_value (VStr s) = encode_str s"
| "encode_value (VArr vs) = arr_header (length vs) @ concat (map encode_value vs)"
| "encode_value (VMap kvs) =
     map_header (length kvs) @ concat (map (\<lambda>(k, v). encode_str k @ encode_value v) kvs)"
| "encode_value (VRec n fs) =
     map_header (length fs) @ concat (map (\<lambda>(k, v). encode_str k @ encode_value v) fs)"

section \<open>Decoding\<close>

text \<open>Reading a fixed number of bytes fails with \<open>Truncated\<close> when fewer remain.\<close>

definition take_bytes :: "nat \<Rightarrow> bytes \<Rightarrow> error + (bytes \<times> bytes)" where
  "take_bytes k bs = (if length bs < k then Inl Truncated else Inr (take k bs, drop k bs))"

definition signed_of :: "nat \<Rightarrow> nat \<Rightarrow> int" where
  "signed_of k v = (if v < 2 ^ (8 * k - 1) then int v else int v - 2 ^ (8 * k))"

text \<open>
  The header of an encoded value is its tag byte and whatever fixed fields follow it.
  It is either a complete scalar, or the element count of a sequence or a mapping
  whose elements follow.
\<close>

datatype head = Scalar val | ArrHdr nat | MapHdr nat

definition read_len :: "nat \<Rightarrow> (nat \<Rightarrow> head) \<Rightarrow> bytes \<Rightarrow> error + (head \<times> bytes)" where
  "read_len k g bs =
     (case take_bytes k bs of Inl e \<Rightarrow> Inl e | Inr (l, r) \<Rightarrow> Inr (g (be_val l), r))"

definition read_str :: "nat \<Rightarrow> bytes \<Rightarrow> error + (head \<times> bytes)" where
  "read_str k bs =
     (case take_bytes k bs of Inl e \<Rightarrow> Inl e
      | Inr (s, r) \<Rightarrow> Inr (Scalar (VStr (map char_of_byte s)), r))"

definition read_len_str :: "nat \<Rightarrow> bytes \<Rightarrow> error + (head \<times> bytes)" where
  "read_len_str k bs =
     (case take_bytes k bs of Inl e \<Rightarrow> Inl e | Inr (l, r) \<Rightarrow> read_str (be_val l) r)"

text \<open>
  \<open>decode_head t bs\<close> interprets tag \<open>t\<close>, reading from \<open>bs\<close> the fields the tag
  announces (the tag table of spec section 6).  The reserved tag \<open>0xC1\<close> and the
  tags of the binary and extension families are not part of the codec's format and
  fail with \<open>UnknownTag\<close>.
\<close>

definition decode_head :: "byte \<Rightarrow> bytes \<Rightarrow> error + (head \<times> bytes)" where
  "decode_head t bs =
     (let n = unat t in
      if n < 0x80 then Inr (Scalar (VInt (int n)), bs)
      else if n < 0x90 then Inr (MapHdr (n - 0x80), bs)
      else if n < 0xA0 then Inr (ArrHdr (n - 0x90), bs)
      else if n < 0xC0 then read_str (n - 0xA0) bs
      else if n = 0xC0 then Inr (Scalar VNil, bs)
      else if n = 0xC2 then Inr (Scalar (VBool False), bs)
      else if n = 0xC3 then Inr (Scalar (VBool True), bs)
      else if n = 0xCA then read_len 4 (\<lambda>v. Scalar (VF32 (of_nat v))) bs
      else if n = 0xCB then read_len 8 (\<lambda>v. Scalar (VF64 (of_nat v))) bs
      else if n = 0xCC then read_len 1 (\<lambda>v. Scalar (VInt (int v))) bs
      else if n = 0xCD then read_len 2 (\<lambda>v. Scalar (VInt (int v))) bs
      else if n = 0xCE then read_len 4 (\<lambda>v. Scalar (VInt (int v))) bs
      else if n = 0xCF then read_len 8 (\<lambda>v. Scalar (VInt (int v))) bs
      else if n = 0xD0 then read_len 1 (\<lambda>v. Scalar (VInt (signed_of 1 v))) bs
      else if n = 0xD1 then read_len 2 (\<lambda>v. Scalar (VInt (signed_of 2 v))) bs
      else if n = 0xD2 then read_len 4 (\<lambda>v. Scalar (VInt (signed_of 4 v))) bs
      else if n = 0xD3 then read_len 8 (\<lambda>v. Scalar (VInt (signed_of 8 v))) bs
      else if n = 0xD9 then read_len_str 1 bs
      else if n = 0xDA then read_len_str 2 bs
      else if n = 0xDB then read_len_str 4 bs
      else if n = 0xDC then read_len 2 ArrHdr bs
      else if n = 0xDD then read_len 4 ArrHdr bs
      else if n = 0xDE then read_len 2 MapHdr bs
      else if n = 0xDF then read_len 4 MapHdr bs
      else if 0xE0 \<le> n then Inr (Scalar (VInt (int n - 256)), bs)
      else Inl (UnknownTag t))"

definition lift_res :: "('a \<Rightarrow> val) \<Rightarrow> error + ('a \<times> bytes) \<Rightarrow> error + (val \<times> bytes)" where
  "lift_res g r = (case r of Inl e \<Rightarrow> Inl e | Inr (x, rest) \<Rightarrow> Inr (g x, rest))"

text \<open>
  Decoding needs no shape information (spec 4.1).  The first argument of the
  decoder is a depth fuel: one unit per level of nesting, so that the definition
  is structural; \<open>decode\<close> supplies more than the input's length, and
  \<open>decode_fuel_enough\<close> proves that this never runs out.  \<open>decode_array f k\<close>
  and \<open>decode_map f k\<close> read \<open>k\<close> elements or entries; a mapping key must be
  a string.
\<close>

fun decode_value :: "nat \<Rightarrow> bytes \<Rightarrow> error + (val \<times> bytes)"
and decode_array :: "nat \<Rightarrow> nat \<Rightarrow> bytes \<Rightarrow> error + (val list \<times> bytes)"
and decode_map :: "nat \<Rightarrow> nat \<Rightarrow> bytes \<Rightarrow> error + ((string \<times> val) list \<times> bytes)" where
  "decode_value 0 bs = Inl DepthExceeded"
| "decode_value (Suc f) [] = Inl Truncated"
| "decode_value (Suc f) (t # bs) =
     (case decode_head t bs of Inl e \<Rightarrow> Inl e
      | Inr (Scalar v, r) \<Rightarrow> Inr (v, r)
      | Inr (ArrHdr k, r) \<Rightarrow> lift_res VArr (decode_array f k r)
      | Inr (MapHdr k, r) \<Rightarrow> lift_res VMap (decode_map f k r))"
| "decode_array f 0 bs = Inr ([], bs)"
| "decode_array f (Suc k) bs =
     (case decode_value f bs of Inl e \<Rightarrow> Inl e
      | Inr (v, r) \<Rightarrow>
          (case decode_array f k r of Inl e \<Rightarrow> Inl e
           | Inr (vs, r') \<Rightarrow> Inr (v # vs, r')))"
| "decode_map f 0 bs = Inr ([], bs)"
| "decode_map f (Suc k) bs =
     (case decode_value f bs of Inl e \<Rightarrow> Inl e
      | Inr (VStr key, r) \<Rightarrow>
          (case decode_value f r of Inl e \<Rightarrow> Inl e
           | Inr (v, r') \<Rightarrow>
               (case decode_map f k r' of Inl e \<Rightarrow> Inl e
                | Inr (kvs, r'') \<Rightarrow> Inr ((key, v) # kvs, r'')))
      | Inr (_, r) \<Rightarrow> Inl InvalidEncoding)"

definition decode :: "bytes \<Rightarrow> error + (val \<times> bytes)" where
  "decode bs = decode_value (Suc (length bs)) bs"

section \<open>What a decoder can give back\<close>

text \<open>
  \<open>erase v\<close> is what the tag-driven decoder reconstructs from \<open>encode_value v\<close>:
  records become mappings, since the wire form carries no record names (spec 4.1);
  binding to a registered record shape (theory \<open>Registry\<close>) recovers them.
\<close>

fun erase :: "val \<Rightarrow> val" where
  "erase (VArr vs) = VArr (map erase vs)"
| "erase (VMap kvs) = VMap (map (\<lambda>(k, v). (k, erase v)) kvs)"
| "erase (VRec n fs) = VMap (map (\<lambda>(k, v). (k, erase v)) fs)"
| "erase v = v"

text \<open>
  \<open>wf_value v\<close>: \<open>v\<close> is a value a Go program can hold and the tag table can
  express: integers within \<open>int64\<close>/\<open>uint64\<close>, and strings, sequences and
  mappings shorter than \<open>2^32\<close>, the limit of the widest length fields.
\<close>

fun wf_value :: "val \<Rightarrow> bool" where
  "wf_value (VInt i) = (- (2 ^ 63) \<le> i \<and> i < 2 ^ 64)"
| "wf_value (VStr s) = (length s < 2 ^ 32)"
| "wf_value (VArr vs) = (length vs < 2 ^ 32 \<and> list_all wf_value vs)"
| "wf_value (VMap kvs) =
     (length kvs < 2 ^ 32 \<and> list_all (\<lambda>(k, v). length k < 2 ^ 32 \<and> wf_value v) kvs)"
| "wf_value (VRec n fs) =
     (length fs < 2 ^ 32 \<and> list_all (\<lambda>(k, v). length k < 2 ^ 32 \<and> wf_value v) fs)"
| "wf_value v = True"

text \<open>
  \<open>dec_fuel v\<close> bounds the depth fuel that decoding \<open>encode_value v\<close> needs:
  one unit per container, summed over the elements.
\<close>

fun dec_fuel :: "val \<Rightarrow> nat" where
  "dec_fuel (VArr vs) = Suc (sum_list (map dec_fuel vs))"
| "dec_fuel (VMap kvs) = Suc (sum_list (map (\<lambda>(k, v). dec_fuel v) kvs))"
| "dec_fuel (VRec n fs) = Suc (sum_list (map (\<lambda>(k, v). dec_fuel v) fs))"
| "dec_fuel v = 1"

section \<open>Properties of the value encoding\<close>

lemma take_bytes_append [wire_simps]: "length l = k \<Longrightarrow> take_bytes k (l @ r) = Inr (l, r)"
  by (simp add: take_bytes_def)

lemma read_len_be [wire_simps]:
  "x < 256 ^ k \<Longrightarrow> read_len k g (be_bytes k x @ r) = Inr (g x, r)"
  by (simp add: read_len_def take_bytes_append)

lemma read_str_chars [wire_simps]:
  "k = length s \<Longrightarrow> read_str k (map byte_of_char s @ r) = Inr (Scalar (VStr s), r)"
  by (simp add: read_str_def take_bytes_append)

lemma read_len_str_be [wire_simps]:
  "length s < 256 ^ k \<Longrightarrow>
   read_len_str k (be_bytes k (length s) @ map byte_of_char s @ r) = Inr (Scalar (VStr s), r)"
  by (simp add: read_len_str_def take_bytes_append read_str_chars)

text \<open>Each encoder branch is read back by the decoder branch of its tag.\<close>

lemma decode_pos_int:
  assumes "0 \<le> i" "i < 2 ^ 64"
  shows "decode_value (Suc f) (encode_int i @ r) = Inr (VInt i, r)"
proof -
  consider "i < 128" | "128 \<le> i" "i < 2 ^ 8" | "2 ^ 8 \<le> i" "i < 2 ^ 16"
    | "2 ^ 16 \<le> i" "i < 2 ^ 32" | "2 ^ 32 \<le> i" by linarith
  then show ?thesis
    by cases (use assms in \<open>simp_all add: encode_int_def decode_head_def Let_def read_len_be nat_less_iff\<close>)
qed

lemma decode_neg_int:
  assumes "- (2 ^ 63) \<le> i" "i < 0"
  shows "decode_value (Suc f) (encode_int i @ r) = Inr (VInt i, r)"
proof -
  consider "- 32 \<le> i" | "- (2 ^ 7) \<le> i" "i < - 32" | "- (2 ^ 15) \<le> i" "i < - (2 ^ 7)"
    | "- (2 ^ 31) \<le> i" "i < - (2 ^ 15)" | "i < - (2 ^ 31)" by linarith
  then show ?thesis
    by cases (use assms in \<open>simp_all add: encode_int_def decode_head_def Let_def read_len_be nat_less_iff
        signed_of_def neg_mod_eq\<close>)
qed

lemma decode_encode_str:
  assumes "length s < 2 ^ 32"
  shows "decode_value (Suc f) (encode_str s @ r) = Inr (VStr s, r)"
proof -
  consider "length s < 32" | "32 \<le> length s" "length s < 2 ^ 8"
    | "2 ^ 8 \<le> length s" "length s < 2 ^ 16" | "2 ^ 16 \<le> length s" by linarith
  then show ?thesis
    by cases (use assms in \<open>simp_all add: encode_str_def str_header_def decode_head_def Let_def read_str_chars
        read_len_str_be\<close>)
qed

lemma decode_arr_header:
  assumes "n < 2 ^ 32"
  shows "decode_value (Suc f) (arr_header n @ body) = lift_res VArr (decode_array f n body)"
proof -
  consider "n < 16" | "16 \<le> n" "n < 2 ^ 16" | "2 ^ 16 \<le> n" by linarith
  then show ?thesis
    by cases (use assms in \<open>simp_all add: arr_header_def decode_head_def Let_def read_len_be\<close>)
qed

lemma decode_map_header:
  assumes "n < 2 ^ 32"
  shows "decode_value (Suc f) (map_header n @ body) = lift_res VMap (decode_map f n body)"
proof -
  consider "n < 16" | "16 \<le> n" "n < 2 ^ 16" | "2 ^ 16 \<le> n" by linarith
  then show ?thesis
    by cases (use assms in \<open>simp_all add: map_header_def decode_head_def Let_def read_len_be\<close>)
qed

lemma lift_res_Inr [simp]: "lift_res g (Inr (x, r)) = Inr (g x, r)"
  by (simp add: lift_res_def)

text \<open>Sequences and mappings: element by element, with the elements' own roundtrip.\<close>

lemma decode_array_encode:
  "(\<And>v r. v \<in> set vs \<Longrightarrow> decode_value f (encode_value v @ r) = Inr (erase v, r)) \<Longrightarrow>
   decode_array f (length vs) (concat (map encode_value vs) @ r) = Inr (map erase vs, r)"
  by (induction vs arbitrary: r) simp_all

lemma decode_map_encode:
  "(\<And>k v r. (k, v) \<in> set kvs \<Longrightarrow>
      length k < 2 ^ 32 \<and> decode_value f (encode_value v @ r) = Inr (erase v, r)) \<Longrightarrow>
   decode_map f (length kvs) (concat (map (\<lambda>(k, v). encode_str k @ encode_value v) kvs) @ r)
     = Inr (map (\<lambda>(k, v). (k, erase v)) kvs, r)"
proof (induction kvs arbitrary: r)
  case Nil
  then show ?case by simp
next
  case (Cons kv kvs)
  obtain k v where kv: "kv = (k, v)" by fastforce
  with Cons.prems have hk: "length k < 2 ^ 32"
    and hv: "\<And>r. decode_value f (encode_value v @ r) = Inr (erase v, r)" by auto
  obtain f' where f: "f = Suc f'"
    using hv [of "[]"] by (cases f) simp_all
  have key: "decode_value f (encode_str k @ rest) = Inr (VStr k, rest)" for rest
    using f hk by (simp add: decode_encode_str)
  have IH: "decode_map f (length kvs)
      (concat (map (\<lambda>(k, v). encode_str k @ encode_value v) kvs) @ r)
      = Inr (map (\<lambda>(k, v). (k, erase v)) kvs, r)"
    by (rule Cons.IH) (use Cons.prems in auto)
  show ?case
    using kv key hv IH by simp
qed

text \<open>
  The roundtrip at any sufficient fuel, by induction on the value: the decoder
  reconstructs \<open>erase v\<close> and hands back exactly the bytes after the encoding.
\<close>

lemma decode_encode_value:
  "wf_value v \<Longrightarrow> dec_fuel v \<le> f \<Longrightarrow> decode_value f (encode_value v @ r) = Inr (erase v, r)"
proof (induction v arbitrary: f r)
  case VNil
  then show ?case by (cases f) (simp_all add: decode_head_def Let_def)
next
  case (VBool b)
  then show ?case by (cases f) (simp_all add: decode_head_def Let_def)
next
  case (VInt i)
  then obtain f' where "f = Suc f'" by (cases f) simp_all
  with VInt show ?case
    by (cases "0 \<le> i") (simp_all add: decode_pos_int decode_neg_int)
next
  case (VF32 x)
  have "unat x < 256 ^ 4" using unsigned_less [of x] by simp
  with VF32 show ?case by (cases f) (simp_all add: decode_head_def Let_def read_len_be)
next
  case (VF64 x)
  have "unat x < 256 ^ 8" using unsigned_less [of x] by simp
  with VF64 show ?case by (cases f) (simp_all add: decode_head_def Let_def read_len_be)
next
  case (VStr s)
  then show ?case by (cases f) (simp_all add: decode_encode_str)
next
  case (VArr vs)
  then obtain f' where f: "f = Suc f'" by (cases f) simp_all
  have "decode_value f' (encode_value v @ r') = Inr (erase v, r')" if "v \<in> set vs" for v r'
  proof -
    have "dec_fuel v \<le> sum_list (map dec_fuel vs)"
      using that by (simp add: member_le_sum_list)
    with VArr.prems f that show ?thesis by (intro VArr.IH) (auto simp: list_all_iff)
  qed
  with VArr.prems f show ?case by (simp add: decode_arr_header decode_array_encode)
next
  case (VMap kvs)
  then obtain f' where f: "f = Suc f'" by (cases f) simp_all
  have "length k < 2 ^ 32 \<and> decode_value f' (encode_value v @ r') = Inr (erase v, r')"
    if "(k, v) \<in> set kvs" for k v r'
  proof -
    have "dec_fuel v \<in> set (map (\<lambda>(k, v). dec_fuel v) kvs)"
      using that by force
    then have "dec_fuel v \<le> sum_list (map (\<lambda>(k, v). dec_fuel v) kvs)"
      by (simp add: member_le_sum_list)
    with VMap.prems f that show ?thesis by (auto simp: list_all_iff intro: VMap.IH)
  qed
  with VMap.prems f show ?case by (simp add: decode_map_header decode_map_encode)
next
  case (VRec n fs)
  then obtain f' where f: "f = Suc f'" by (cases f) simp_all
  have "length k < 2 ^ 32 \<and> decode_value f' (encode_value v @ r') = Inr (erase v, r')"
    if "(k, v) \<in> set fs" for k v r'
  proof -
    have "dec_fuel v \<in> set (map (\<lambda>(k, v). dec_fuel v) fs)"
      using that by force
    then have "dec_fuel v \<le> sum_list (map (\<lambda>(k, v). dec_fuel v) fs)"
      by (simp add: member_le_sum_list)
    with VRec.prems f that show ?thesis by (auto simp: list_all_iff intro: VRec.IH)
  qed
  with VRec.prems f show ?case by (simp add: decode_map_header decode_map_encode)
qed

lemma take_bytes_Inr: "take_bytes k bs = Inr (l, r) \<Longrightarrow> length r \<le> length bs"
  by (auto simp: take_bytes_def split: if_splits)

lemma read_len_shorter: "read_len k g bs = Inr (h, r) \<Longrightarrow> length r \<le> length bs"
  by (auto simp: read_len_def dest: take_bytes_Inr split: sum.splits)

lemma read_str_shorter: "read_str k bs = Inr (h, r) \<Longrightarrow> length r \<le> length bs"
  by (auto simp: read_str_def dest: take_bytes_Inr split: sum.splits)

lemma read_len_str_shorter: "read_len_str k bs = Inr (h, r) \<Longrightarrow> length r \<le> length bs"
  by (fastforce simp: read_len_str_def dest: take_bytes_Inr read_str_shorter split: sum.splits)

lemma decode_head_shorter: "decode_head t bs = Inr (h, r) \<Longrightarrow> length r \<le> length bs"
  unfolding decode_head_def Let_def
  by (auto split: if_splits dest: read_len_shorter read_str_shorter read_len_str_shorter)

lemma lift_res_Inr_iff: "lift_res g x = Inr (v, r) \<longleftrightarrow> (\<exists>y. x = Inr (y, r) \<and> v = g y)"
  by (auto simp: lift_res_def split: sum.splits)

text \<open>
  Every successful decode consumes at least one byte; the decoders of a sequence or
  mapping never give back more than they were given.
\<close>

lemma decode_consumes:
  "decode_value f bs = Inr (v, r) \<Longrightarrow> length r < length bs"
  "decode_array f k bs = Inr (vs, r) \<Longrightarrow> length r \<le> length bs"
  "decode_map f k bs = Inr (kvs, r) \<Longrightarrow> length r \<le> length bs"
proof (induction f bs and f k bs and f k bs arbitrary: v r and vs r and kvs r
    rule: decode_value_decode_array_decode_map.induct)
  case (3 f t bs)
  then show ?case
    by (fastforce simp: lift_res_Inr_iff split: sum.splits prod.splits head.splits
        dest: decode_head_shorter)
next
  case (5 f k bs)
  then show ?case by (fastforce split: sum.splits prod.splits)
next
  case (7 f k bs)
  then show ?case by (fastforce split: sum.splits prod.splits val.splits)
qed simp_all

lemma take_bytes_Inl: "take_bytes k bs = Inl e \<Longrightarrow> e = Truncated"
  by (simp add: take_bytes_def split: if_splits)

lemma read_str_Inl: "read_str k bs = Inl e \<Longrightarrow> e = Truncated"
  by (auto simp: read_str_def dest: take_bytes_Inl split: sum.splits)

lemma decode_head_Inl: "decode_head t bs = Inl e \<Longrightarrow> e = Truncated \<or> e = UnknownTag t"
  unfolding decode_head_def Let_def read_len_def read_len_str_def
  by (auto split: if_splits sum.splits prod.splits dest: take_bytes_Inl read_str_Inl)

lemma lift_res_Inl: "lift_res g x = Inl e \<longleftrightarrow> x = Inl e"
  by (auto simp: lift_res_def split: sum.splits)

text \<open>
  A fuel larger than the input is never exhausted: each level of nesting consumes a
  tag byte.
\<close>

lemma decode_fuel_adequate:
  "length bs < f \<Longrightarrow> decode_value f bs \<noteq> Inl DepthExceeded"
  "length bs < f \<Longrightarrow> decode_array f k bs \<noteq> Inl DepthExceeded"
  "length bs < f \<Longrightarrow> decode_map f k bs \<noteq> Inl DepthExceeded"
proof (induction f bs and f k bs and f k bs rule: decode_value_decode_array_decode_map.induct)
  case (3 f t bs)
  show ?case
  proof (cases "decode_head t bs")
    case (Inl e)
    then show ?thesis by (auto dest: decode_head_Inl)
  next
    case (Inr p)
    obtain h r where p: "p = (h, r)" by fastforce
    with Inr have "length r < f"
      using "3.prems" decode_head_shorter [of t bs h r] by simp
    with Inr p "3.IH" show ?thesis
      by (cases h) (auto simp: lift_res_Inl)
  qed
next
  case (5 f k bs)
  then show ?case by (fastforce split: sum.splits prod.splits dest: decode_consumes(1))
next
  case (7 f k bs)
  then show ?case
    by (fastforce split: sum.splits prod.splits val.splits dest: decode_consumes(1))
qed simp_all

text \<open>An encoding is at least as long as the fuel its decoding needs.\<close>

lemma arr_header_nonempty [simp]: "arr_header n \<noteq> []"
  by (simp add: arr_header_def)

lemma map_header_nonempty [simp]: "map_header n \<noteq> []"
  by (simp add: map_header_def)

lemma length_concat_map_ge:
  "(\<And>x. x \<in> set xs \<Longrightarrow> g x \<le> length (h x)) \<Longrightarrow>
   sum_list (map g xs) \<le> length (concat (map h xs))"
  by (induction xs) (simp_all add: add_mono)

lemma suc_le_header: "h \<noteq> [] \<Longrightarrow> a \<le> b \<Longrightarrow> Suc a \<le> length h + b"
  by (cases h) simp_all

lemma dec_fuel_le_length: "dec_fuel v \<le> length (encode_value v)"
proof (induction v)
  case (VArr vs)
  then have "sum_list (map dec_fuel vs) \<le> length (concat (map encode_value vs))"
    by (intro length_concat_map_ge) simp
  then show ?case by (simp add: suc_le_header)
next
  case (VMap kvs)
  then have "sum_list (map (\<lambda>(k, v). dec_fuel v) kvs)
      \<le> length (concat (map (\<lambda>(k, v). encode_str k @ encode_value v) kvs))"
    by (intro length_concat_map_ge) (fastforce split: prod.splits)
  then show ?case by (simp add: suc_le_header)
next
  case (VRec n fs)
  then have "sum_list (map (\<lambda>(k, v). dec_fuel v) fs)
      \<le> length (concat (map (\<lambda>(k, v). encode_str k @ encode_value v) fs))"
    by (intro length_concat_map_ge) (fastforce split: prod.splits)
  then show ?case by (simp add: suc_le_header)
qed (simp_all add: encode_int_def encode_str_def str_header_def)

end
