(* ===== verification/Registry.thy ===== *)
theory Registry
  imports MsgPack
begin

text \<open>
  The type registry (spec section 4.2) and the typed side of the codec: the shape
  descriptors that the packet-id table maps to, the encoder's shape check
  \<open>conforms\<close> (spec 4.4, \<open>ShapeMismatch\<close>), the decoder's binding \<open>bind\<close> of a
  generically decoded value to a shape (records from mappings, \<open>MissingField\<close>,
  integer widths and \<open>Overflow\<close>), and the zero value of a shape (Go's
  \<open>reflect.Zero\<close>, used by the test \<open>TestType\<close>).  The Go package that holds
  \<open>PacketMap\<close> is not among the sources, so this follows the spec; the
  registry is the closed descriptor model of spec section 9.
\<close>

section \<open>Shapes and the registry\<close>

text \<open>
  A primitive kind: \<open>KInt w s\<close> is a Go integer of \<open>w\<close> bits, signed when \<open>s\<close>
  (\<open>int\<close> is \<open>KInt 64 True\<close>, \<open>uint8\<close> is \<open>KInt 8 False\<close>).
\<close>

datatype kind = KBool | KInt nat bool | KF32 | KF64 | KStr

text \<open>
  A shape descriptor: \<open>SAny\<close> is Go's \<open>interface{}\<close> (any value, decoded
  generically), \<open>SArray n sh\<close> a fixed-size array \<open>[n]T\<close>, \<open>SMap sh\<close> a
  \<open>map[string]T\<close>, \<open>SRecord name fields\<close> a struct with its ordered fields.
\<close>

datatype shape =
    SAny
  | SPrim kind
  | SArray nat shape
  | SMap shape
  | SRecord string "(string \<times> shape) list"

type_synonym registry = "byte \<Rightarrow> shape option"

definition register :: "registry \<Rightarrow> byte \<Rightarrow> shape \<Rightarrow> registry" where
  "register reg pid sh = reg(pid \<mapsto> sh)"

definition lookup :: "registry \<Rightarrow> byte \<Rightarrow> error + shape" where
  "lookup reg pid = (case reg pid of None \<Rightarrow> Inl (UnknownPacketId pid) | Some sh \<Rightarrow> Inr sh)"

definition name_of :: "registry \<Rightarrow> byte \<Rightarrow> string option" where
  "name_of reg pid = (case reg pid of Some (SRecord nm fs) \<Rightarrow> Some nm | _ \<Rightarrow> None)"

text \<open>
  \<open>all_entries reg pmax\<close> lists the registered ids in increasing order with their
  shapes, leaving out the sentinel \<open>pmax\<close> (\<open>PMax\<close>), as the loop of
  \<open>TestType\<close> does.
\<close>

definition all_entries :: "registry \<Rightarrow> byte \<Rightarrow> (byte \<times> shape) list" where
  "all_entries reg pmax =
     map (\<lambda>i. (i, the (reg i))) (filter (\<lambda>i. i \<noteq> pmax \<and> reg i \<noteq> None) (map of_nat [0..<256]))"

section \<open>The encoder's shape check\<close>

definition fits_int :: "nat \<Rightarrow> bool \<Rightarrow> int \<Rightarrow> bool" where
  "fits_int w s i = (if s then - (2 ^ (w - 1)) \<le> i \<and> i < 2 ^ (w - 1) else 0 \<le> i \<and> i < 2 ^ w)"

fun prim_ok :: "kind \<Rightarrow> val \<Rightarrow> bool" where
  "prim_ok KBool (VBool b) = True"
| "prim_ok (KInt w s) (VInt i) = fits_int w s i"
| "prim_ok KF32 (VF32 x) = True"
| "prim_ok KF64 (VF64 x) = True"
| "prim_ok KStr (VStr s) = True"
| "prim_ok k v = False"

text \<open>
  \<open>conforms_to any sh v\<close>: the runtime shape of \<open>v\<close> matches \<open>sh\<close> (field names
  and count for records, element count and shape for arrays), where \<open>any\<close> says
  what an \<open>interface{}\<close> position accepts.  The encoder's check \<open>conforms\<close>
  accepts anything there.
\<close>

fun conforms_to :: "(val \<Rightarrow> bool) \<Rightarrow> shape \<Rightarrow> val \<Rightarrow> bool"
and conforms_fields :: "(val \<Rightarrow> bool) \<Rightarrow> (string \<times> shape) list \<Rightarrow> (string \<times> val) list \<Rightarrow> bool" where
  "conforms_to any SAny v = any v"
| "conforms_to any (SPrim k) v = prim_ok k v"
| "conforms_to any (SArray n sh) (VArr vs) = (length vs = n \<and> list_all (conforms_to any sh) vs)"
| "conforms_to any (SMap sh) (VMap kvs) = list_all (\<lambda>kv. conforms_to any sh (snd kv)) kvs"
| "conforms_to any (SRecord nm fs) (VRec nm' fvs) = (nm' = nm \<and> conforms_fields any fs fvs)"
| "conforms_to any sh v = False"
| "conforms_fields any [] [] = True"
| "conforms_fields any ((f, sh) # fs) ((g, v) # fvs) =
     (g = f \<and> conforms_to any sh v \<and> conforms_fields any fs fvs)"
| "conforms_fields any fs fvs = False"

definition conforms :: "shape \<Rightarrow> val \<Rightarrow> bool" where
  "conforms sh v = conforms_to (\<lambda>_. True) sh v"

text \<open>
  \<open>exact sh v\<close>: \<open>v\<close> has shape \<open>sh\<close> and every \<open>interface{}\<close> position of it
  holds a value the generic decoder reproduces (no record there: a struct stored
  in an \<open>interface{}\<close> comes back as a mapping).  \<open>wf_shape\<close>: integer widths
  are Go's, record field names are distinct, and counts fit the length fields.
\<close>

definition exact :: "shape \<Rightarrow> val \<Rightarrow> bool" where
  "exact sh v = conforms_to (\<lambda>v. erase v = v) sh v"

fun wf_shape :: "shape \<Rightarrow> bool" where
  "wf_shape (SPrim (KInt w s)) = (w \<in> {8, 16, 32, 64})"
| "wf_shape (SArray n sh) = (n < 2 ^ 32 \<and> wf_shape sh)"
| "wf_shape (SMap sh) = wf_shape sh"
| "wf_shape (SRecord nm fs) =
     (distinct (map fst fs) \<and> length fs < 2 ^ 32 \<and>
      list_all (\<lambda>(f, sh). length f < 2 ^ 32 \<and> wf_shape sh) fs)"
| "wf_shape sh = True"

section \<open>The decoder's binding to a shape\<close>

fun bind_prim :: "kind \<Rightarrow> val \<Rightarrow> error + val" where
  "bind_prim (KInt w s) (VInt i) = (if fits_int w s i then Inr (VInt i) else Inl Overflow)"
| "bind_prim k v = (if prim_ok k v then Inr v else Inl ShapeMismatch)"

text \<open>
  \<open>bind sh v\<close> turns the generically decoded \<open>v\<close> into a value of shape \<open>sh\<close>: a
  record is bound from a mapping by looking each field up by name (the first entry
  with that key; absent is \<open>MissingField\<close>, keys that name no field are ignored).
\<close>

fun bind :: "shape \<Rightarrow> val \<Rightarrow> error + val"
and bind_fields :: "(string \<times> shape) list \<Rightarrow> (string \<times> val) list \<Rightarrow> error + (string \<times> val) list" where
  "bind SAny v = Inr v"
| "bind (SPrim k) v = bind_prim k v"
| "bind (SArray n sh) (VArr vs) =
     (if length vs = n then
        (case mapM (bind sh) vs of Inl e \<Rightarrow> Inl e | Inr ws \<Rightarrow> Inr (VArr ws))
      else Inl ShapeMismatch)"
| "bind (SMap sh) (VMap kvs) =
     (case mapM (\<lambda>kv. case bind sh (snd kv) of Inl e \<Rightarrow> Inl e | Inr w \<Rightarrow> Inr (fst kv, w)) kvs of
        Inl e \<Rightarrow> Inl e | Inr ws \<Rightarrow> Inr (VMap ws))"
| "bind (SRecord nm fs) (VMap kvs) =
     (case bind_fields fs kvs of Inl e \<Rightarrow> Inl e | Inr ws \<Rightarrow> Inr (VRec nm ws))"
| "bind sh v = Inl ShapeMismatch"
| "bind_fields [] kvs = Inr []"
| "bind_fields ((f, sh) # fs) kvs =
     (case map_of kvs f of
        None \<Rightarrow> Inl (MissingField f)
      | Some v \<Rightarrow>
          (case bind sh v of Inl e \<Rightarrow> Inl e
           | Inr w \<Rightarrow> (case bind_fields fs kvs of Inl e \<Rightarrow> Inl e | Inr ws \<Rightarrow> Inr ((f, w) # ws))))"

section \<open>Zero values\<close>

text \<open>\<open>zero_value sh\<close> is Go's zero value of the type \<open>sh\<close> describes.\<close>

fun zero_value :: "shape \<Rightarrow> val" where
  "zero_value SAny = VNil"
| "zero_value (SPrim KBool) = VBool False"
| "zero_value (SPrim (KInt w s)) = VInt 0"
| "zero_value (SPrim KF32) = VF32 0"
| "zero_value (SPrim KF64) = VF64 0"
| "zero_value (SPrim KStr) = VStr []"
| "zero_value (SArray n sh) = VArr (replicate n (zero_value sh))"
| "zero_value (SMap sh) = VMap []"
| "zero_value (SRecord nm fs) = VRec nm (map (\<lambda>(f, sh). (f, zero_value sh)) fs)"

section \<open>Properties of the typed layer\<close>

lemma conforms_to_mono:
  "conforms_to P sh v \<Longrightarrow> (\<And>x. P x \<Longrightarrow> Q x) \<Longrightarrow> conforms_to Q sh v"
  "conforms_fields P fs fvs \<Longrightarrow> (\<And>x. P x \<Longrightarrow> Q x) \<Longrightarrow> conforms_fields Q fs fvs"
  by (induction P sh v and P fs fvs rule: conforms_to_conforms_fields.induct)
     (auto simp: list_all_iff)

lemma exact_conforms: "exact sh v \<Longrightarrow> conforms sh v"
  unfolding exact_def conforms_def by (erule conforms_to_mono) simp

lemma prim_ok_erase: "prim_ok k v \<Longrightarrow> erase v = v"
  by (cases "(k, v)" rule: prim_ok.cases) simp_all

lemma bind_prim_ok: "prim_ok k v \<Longrightarrow> bind_prim k v = Inr v"
  by (cases "(k, v)" rule: prim_ok.cases) simp_all

lemma conforms_fields_keys: "conforms_fields P fs fvs \<Longrightarrow> map fst fvs = map fst fs"
  by (induction fs arbitrary: fvs) (auto elim: conforms_fields.elims)

lemma bind_fields_lookup:
  assumes "list_all2 (\<lambda>fsh gv. fst gv = fst fsh \<and> bind (snd fsh) (erase (snd gv)) = Inr (snd gv)) fs fvs"
    and "\<And>f v. (f, v) \<in> set fvs \<Longrightarrow> map_of kvs f = Some (erase v)"
  shows "bind_fields fs kvs = Inr fvs"
  using assms
proof (induction fs arbitrary: fvs)
  case Nil
  then show ?case by simp
next
  case (Cons fsh fs)
  obtain f sh where fsh: "fsh = (f, sh)" by fastforce
  from Cons.prems(1) obtain gv fvs' where fvs0: "fvs = gv # fvs'"
    and h: "fst gv = f \<and> bind sh (erase (snd gv)) = Inr (snd gv)"
    and rest: "list_all2 (\<lambda>fsh gv. fst gv = fst fsh \<and> bind (snd fsh) (erase (snd gv)) = Inr (snd gv)) fs fvs'"
    by (auto simp: list_all2_Cons1 fsh)
  obtain v where gv: "gv = (f, v)" and b: "bind sh (erase v) = Inr v"
    using h by (cases gv) auto
  have fvs: "fvs = (f, v) # fvs'"
    using fvs0 gv by simp
  have m: "map_of kvs f = Some (erase v)"
    using Cons.prems(2) fvs by simp
  have "bind_fields fs kvs = Inr fvs'"
    using rest Cons.prems(2) fvs by (intro Cons.IH) auto
  with fsh fvs m b show ?case by simp
qed


lemma map_of_erase:
  "distinct (map fst fvs) \<Longrightarrow> (f, v) \<in> set fvs \<Longrightarrow>
   map_of (map (\<lambda>(k, v). (k, erase v)) fvs) f = Some (erase v)"
proof -
  assume d: "distinct (map fst fvs)" and m: "(f, v) \<in> set fvs"
  have "distinct (map fst (map (\<lambda>(k, v). (k, erase v)) fvs))"
    using d by (simp add: case_prod_unfold comp_def)
  moreover have "(f, erase v) \<in> set (map (\<lambda>(k, v). (k, erase v)) fvs)"
    using m by force
  ultimately show ?thesis by simp
qed

lemma conforms_fields_list_all2:
  "conforms_fields P fs fvs \<Longrightarrow>
   list_all2 (\<lambda>fsh gv. fst gv = fst fsh \<and> conforms_to P (snd fsh) (snd gv)) fs fvs"
  by (induction fs arbitrary: fvs) (auto elim: conforms_fields.elims)

text \<open>
  Binding inverts erasure on exactly typed values: the decoder recovers records
  (by field name), arrays and typed mappings from their generic decoding.
\<close>

lemma bind_erase: "exact sh v \<Longrightarrow> wf_shape sh \<Longrightarrow> bind sh (erase v) = Inr v"
proof (induction sh arbitrary: v)
  case SAny
  then show ?case by (simp add: exact_def)
next
  case (SPrim k)
  then show ?case by (simp add: exact_def prim_ok_erase bind_prim_ok)
next
  case (SArray n sh)
  then obtain vs where v: "v = VArr vs" and n: "length vs = n"
    and all: "\<And>x. x \<in> set vs \<Longrightarrow> exact sh x"
    by (cases v) (auto simp: exact_def list_all_iff)
  have "mapM (bind sh) (map erase vs) = Inr vs"
    using SArray all by (simp add: mapM_map mapM_Inr_map [where g = id, simplified])
  with v n show ?case by simp
next
  case (SMap sh)
  then obtain kvs where v: "v = VMap kvs"
    and all: "\<And>kv. kv \<in> set kvs \<Longrightarrow> exact sh (snd kv)"
    by (cases v) (auto simp: exact_def list_all_iff)
  have "mapM (\<lambda>kv. case bind sh (snd kv) of Inl e \<Rightarrow> Inl e | Inr w \<Rightarrow> Inr (fst kv, w))
          (map (\<lambda>(k, v). (k, erase v)) kvs) = Inr kvs"
    using SMap all
    by (simp add: mapM_map mapM_Inr_map [where g = id, simplified] case_prod_unfold)
  with v show ?case by simp
next
  case (SRecord nm fs)
  then obtain fvs where v: "v = VRec nm fvs" and c: "conforms_fields (\<lambda>v. erase v = v) fs fvs"
    by (cases v) (auto simp: exact_def)
  have keys: "map fst fvs = map fst fs"
    using c by (rule conforms_fields_keys)
  have d: "distinct (map fst fvs)"
    using SRecord.prems(2) keys by simp
  have lc: "list_all2 (\<lambda>fsh gv. fst gv = fst fsh \<and> conforms_to (\<lambda>v. erase v = v) (snd fsh) (snd gv)) fs fvs"
    using c by (rule conforms_fields_list_all2)
  have "list_all2 (\<lambda>fsh gv. fst gv = fst fsh \<and> bind (snd fsh) (erase (snd gv)) = Inr (snd gv)) fs fvs"
  proof (rule list_all2_all_nthI)
    show "length fs = length fvs"
      using lc by (simp add: list_all2_conv_all_nth)
    fix i assume i: "i < length fs"
    obtain f sh where fi: "fs ! i = (f, sh)" by fastforce
    obtain g w where gi: "fvs ! i = (g, w)" by fastforce
    from lc i fi gi have g: "g = f" and cw: "conforms_to (\<lambda>v. erase v = v) sh w"
      by (auto simp: list_all2_conv_all_nth)
    have mem: "(f, sh) \<in> set fs"
      using i fi by (metis nth_mem)
    then have "wf_shape sh"
      using SRecord.prems(2) by (auto simp: list_all_iff)
    with mem cw have "bind sh (erase w) = Inr w"
      by (intro SRecord.IH [of "(f, sh)" sh w]) (simp_all add: exact_def)
    with fi gi g show "fst (fvs ! i) = fst (fs ! i) \<and> bind (snd (fs ! i)) (erase (snd (fvs ! i))) = Inr (snd (fvs ! i))"
      by simp
  qed
  then have "bind_fields fs (map (\<lambda>(k, v). (k, erase v)) fvs) = Inr fvs"
    using d by (intro bind_fields_lookup) (auto intro: map_of_erase)
  with v show ?case by simp
qed


section \<open>Zero values conform\<close>

lemma conforms_fields_zero:
  "(\<And>f sh. (f, sh) \<in> set fs \<Longrightarrow> conforms_to P sh (zero_value sh)) \<Longrightarrow>
   conforms_fields P fs (map (\<lambda>(f, sh). (f, zero_value sh)) fs)"
proof (induction fs)
  case Nil
  then show ?case by simp
next
  case (Cons fsh fs)
  obtain f sh where fsh: "fsh = (f, sh)" by fastforce
  have "conforms_to P sh (zero_value sh)"
    using Cons.prems [of f sh] fsh by simp
  moreover have "conforms_fields P fs (map (\<lambda>(f, sh). (f, zero_value sh)) fs)"
    using Cons.prems by (intro Cons.IH) auto
  ultimately show ?case by (simp add: fsh)
qed

lemma zero_exact: "wf_shape sh \<Longrightarrow> exact sh (zero_value sh)"
  unfolding exact_def
proof (induction sh)
  case (SPrim k)
  then show ?case by (cases k) (auto simp: fits_int_def)
next
  case (SRecord nm fs)
  then show ?case
    by (auto simp: list_all_iff intro!: conforms_fields_zero)
qed (auto simp: list_all_iff)

lemma zero_wf: "wf_shape sh \<Longrightarrow> wf_value (zero_value sh)"
proof (induction sh)
  case (SPrim k)
  then show ?case by (cases k) simp_all
next
  case (SRecord nm fs)
  then show ?case by (fastforce simp: list_all_iff)
qed (auto simp: list_all_iff)

section \<open>Enumerating the registry\<close>

lemma byte_enum: "(x :: byte) \<in> set (map of_nat [0..<256])"
proof -
  have "unat x < 256"
    using unsigned_less [of x] by simp
  moreover have "of_nat (unat x) = x"
    by simp
  ultimately show ?thesis
    by (metis atLeastLessThan_iff image_eqI set_map set_upt zero_le)
qed

lemma distinct_byte_enum: "distinct (map (of_nat :: nat \<Rightarrow> byte) [0..<256])"
proof -
  have "inj_on (of_nat :: nat \<Rightarrow> byte) {0..<2 ^ LENGTH(8)}"
    by (rule inj_on_word_of_nat)
  then show ?thesis
    by (simp add: distinct_map)
qed

text \<open>Type soundness of binding: whatever \<open>bind sh\<close> returns has shape \<open>sh\<close>.\<close>

lemma bind_prim_conforms: "bind_prim k v = Inr w \<Longrightarrow> prim_ok k w"
  by (induction k v rule: bind_prim.induct) (auto split: if_splits)

lemma bind_conforms:
  "bind sh v = Inr w \<Longrightarrow> conforms_to (\<lambda>_. True) sh w"
  "bind_fields fs kvs = Inr ws \<Longrightarrow> conforms_fields (\<lambda>_. True) fs ws"
proof (induction sh v and fs kvs arbitrary: w and ws rule: bind_bind_fields.induct)
  case (3 n sh vs)
  then obtain ws where m: "mapM (bind sh) vs = Inr ws" and w: "w = VArr ws" and l: "length vs = n"
    by (auto split: if_splits sum.splits)
  have "list_all2 (\<lambda>x y. bind sh x = Inr y) vs ws" by (rule mapM_Inr_list_all2 [OF m])
  then show ?case
    using 3(1) l w by (auto simp: list_all2_lengthD intro: list_all2_list_all_right)
next
  case (4 sh kvs)
  then obtain ws where m: "mapM (\<lambda>kv. case bind sh (snd kv) of Inl e \<Rightarrow> Inl e | Inr w \<Rightarrow> Inr (fst kv, w)) kvs = Inr ws"
      and w: "w = VMap ws"
    by (auto split: sum.splits)
  have "list_all2 (\<lambda>x y. (case bind sh (snd x) of Inl e \<Rightarrow> Inl e | Inr w \<Rightarrow> Inr (fst x, w)) = Inr y) kvs ws"
    by (rule mapM_Inr_list_all2 [OF m])
  then show ?case
    using 4(1) w by (auto intro: list_all2_list_all_right split: sum.splits)
qed (auto simp: bind_prim_conforms split: sum.splits option.splits)

end
