(* ===== verification/Frame.thy ===== *)
theory Frame
  imports Registry
begin

text \<open>
  The frame codec and the encoder/decoder (spec sections 4.3 and 4.4) and the
  one-shot \<open>Read\<close>/\<open>Write\<close> functions that the player connection calls
  (\<^verbatim>\<open>packet.Read\<close>, \<^verbatim>\<open>packet.Write\<close> in \<^verbatim>\<open>src/player/agent.go\<close>).  A byte stream
  is modelled by the list of bytes still unread; every read returns the stream
  after it, on success and on failure, so that what a failed read consumed is part
  of the model (spec 4.4: no backtracking).  Frames are
  \<open>LEN(4, big-endian) | ID | PAYLOAD\<close> with \<open>LEN = 1 + |PAYLOAD|\<close>.
\<close>

section \<open>Frames\<close>

record packet =
  pid :: byte
  obj :: val

text \<open>
  Writing a frame truncates the length to its 32-bit field, as Go's
  \<open>binary.BigEndian.PutUint32(uint32(n))\<close> does; the theorems that read a frame
  back assume the payload is short enough for the length to fit.
\<close>

definition write_frame :: "byte \<Rightarrow> bytes \<Rightarrow> bytes" where
  "write_frame p payload = be_bytes 4 (Suc (length payload)) @ p # payload"

text \<open>
  Reading a frame: exactly 4 bytes of length (\<open>Truncated\<close> if the stream ends
  first, having consumed what was there, as \<open>io.ReadFull\<close> does), then exactly
  \<open>LEN\<close> bytes of body; the first byte of the body is the id.
\<close>

definition read_frame :: "bytes \<Rightarrow> (error + (byte \<times> bytes)) \<times> bytes" where
  "read_frame bs =
     (if length bs < 4 then (Inl Truncated, [])
      else
        (let n = be_val (take 4 bs); body = drop 4 bs in
         if n = 0 then (Inl EmptyFrame, body)
         else if length body < n then (Inl Truncated, [])
         else (Inr (hd body, take (n - 1) (tl body)), drop n body)))"

section \<open>Encoder and decoder\<close>

text \<open>
  \<open>Encoder.Encode(id, v)\<close>: with a registry entry for \<open>id\<close>, \<open>v\<close> must conform to
  it (\<open>ShapeMismatch\<close>); without one it is encoded as it is.  A value outside the
  integer range of the tag table cannot be written (\<open>Overflow\<close>).  The result is
  the bytes written to the sink.
\<close>

definition encode_packet :: "registry \<Rightarrow> byte \<Rightarrow> val \<Rightarrow> error + bytes" where
  "encode_packet reg p v =
     (if \<not> wf_value v then Inl Overflow
      else case reg p of
        Some sh \<Rightarrow> if conforms sh v then Inr (write_frame p (encode_value v)) else Inl ShapeMismatch
      | None \<Rightarrow> Inr (write_frame p (encode_value v)))"

text \<open>
  \<open>Decoder.Decode(&pkt)\<close>: read one frame, look its id up (\<open>UnknownPacketId\<close>),
  decode the payload generically and bind it to the registered shape.  Bytes of the
  payload after the value are ignored.  The stream after the frame is returned in
  every case that got past the frame read.
\<close>

definition decode_packet :: "registry \<Rightarrow> bytes \<Rightarrow> (error + packet) \<times> bytes" where
  "decode_packet reg bs =
     (case read_frame bs of
        (Inl e, r) \<Rightarrow> (Inl e, r)
      | (Inr (p, payload), r) \<Rightarrow>
          (case lookup reg p of
             Inl e \<Rightarrow> (Inl e, r)
           | Inr sh \<Rightarrow>
               (case decode payload of
                  Inl e \<Rightarrow> (Inl e, r)
                | Inr (v, _) \<Rightarrow>
                    (case bind sh v of
                       Inl e \<Rightarrow> (Inl e, r)
                     | Inr w \<Rightarrow> (Inr \<lparr>pid = p, obj = w\<rparr>, r)))))"

text \<open>
  The convenience functions: \<open>Write(w, id, v)\<close> encodes one frame with a fresh
  encoder; \<open>Read(r)\<close> decodes one frame with a fresh decoder and returns only the
  value (the player's reader goroutine forwards \<open>data\<close>, not the packet).
\<close>

definition Write :: "registry \<Rightarrow> byte \<Rightarrow> val \<Rightarrow> error + bytes" where
  "Write reg p v = encode_packet reg p v"

definition Read :: "registry \<Rightarrow> bytes \<Rightarrow> (error + val) \<times> bytes" where
  "Read reg bs =
     (case decode_packet reg bs of (Inl e, r) \<Rightarrow> (Inl e, r) | (Inr pk, r) \<Rightarrow> (Inr (obj pk), r))"

section \<open>Properties of frames\<close>

lemma length_write_frame [simp]: "length (write_frame p payload) = length payload + 5"
  by (simp add: write_frame_def)

lemma write_frame_length_field:
  "Suc (length payload) < 2 ^ 32 \<Longrightarrow> be_val (take 4 (write_frame p payload)) = Suc (length payload)"
  by (simp add: write_frame_def)

text \<open>A frame reads back as the id and payload it was written with, and the stream
  after it is left untouched.\<close>

lemma read_write_frame:
  assumes "Suc (length payload) < 2 ^ 32"
  shows "read_frame (write_frame p payload @ rest) = (Inr (p, payload), rest)"
proof -
  have "be_val (be_bytes 4 (Suc (length payload))) = Suc (length payload)"
    using assms by simp
  then show ?thesis
    by (simp add: read_frame_def write_frame_def Let_def)
qed

text \<open>A stream that ends inside a frame gives \<open>Truncated\<close>, never a frame.\<close>

lemma read_frame_truncated:
  assumes "Suc (length payload) < 2 ^ 32" and "k < length (write_frame p payload)"
  shows "read_frame (take k (write_frame p payload)) = (Inl Truncated, [])"
proof (cases "k < 4")
  case True
  then show ?thesis by (simp add: read_frame_def)
next
  case False
  have "take 4 (take k (write_frame p payload)) = be_bytes 4 (Suc (length payload))"
    using False by (simp add: write_frame_def min_def)
  moreover have "be_val (be_bytes 4 (Suc (length payload))) = Suc (length payload)"
    using assms(1) by simp
  moreover have "length (drop 4 (take k (write_frame p payload))) < Suc (length payload)"
    using assms(2) False by simp
  ultimately show ?thesis
    using False assms(2) by (simp add: read_frame_def Let_def)
qed

lemma decode_packet_unknown:
  assumes "reg p = None" and "Suc (length payload) < 2 ^ 32"
  shows "decode_packet reg (write_frame p payload @ rest) = (Inl (UnknownPacketId p), rest)"
  using assms by (simp add: decode_packet_def read_write_frame lookup_def)

text \<open>The value roundtrip with the fuel \<open>decode\<close> supplies.\<close>

lemma decode_encode_top: "wf_value v \<Longrightarrow> decode (encode_value v @ r) = Inr (erase v, r)"
  unfolding decode_def
  by (rule decode_encode_value) (simp_all add: le_SucI [OF trans_le_add1 [OF dec_fuel_le_length]])

lemma encode_packet_exact:
  assumes "reg p = Some sh" "exact sh v" "wf_value v"
  shows "encode_packet reg p v = Inr (write_frame p (encode_value v))"
  using assms by (simp add: encode_packet_def exact_conforms)

lemma decode_packet_roundtrip:
  assumes "reg p = Some sh" "exact sh v" "wf_value v" "wf_shape sh"
    and "Suc (length (encode_value v)) < 2 ^ 32"
  shows "decode_packet reg (write_frame p (encode_value v) @ rest) = (Inr \<lparr>pid = p, obj = v\<rparr>, rest)"
  using assms
  by (simp add: decode_packet_def read_write_frame lookup_def bind_erase
      decode_encode_top [where r = "[]", simplified])

end
