(* ===== verification/PacketTest.thy ===== *)
theory PacketTest
  imports Frame
begin

text \<open>
  The codec's own tests, \<^verbatim>\<open>src/packet/packet_test.go\<close>, as definitions: each test
  function is a boolean that is \<open>False\<close> exactly where the Go test calls
  \<open>t.Fatal\<close>.  The registry \<open>PacketMap\<close> and the packet ids \<open>PTest\<close>,
  \<open>PLogin\<close>, \<open>PPlayerInfo\<close>, \<open>PMax\<close> are declared in the package's missing
  source, so they are parameters; the shapes of \<open>LoginPacket\<close> and
  \<open>PlayerInfoPacket\<close> are read off their use in the tests.  The theorems below
  state that the tests pass, and for \<open>TestPrimitive\<close> and \<open>TestType\<close> that
  they pass for every input of the kind they sample, not only for the cases listed.
\<close>

section \<open>Test data\<close>

text \<open>\<open>LoginPacket{Username, Password}\<close>, a struct of two strings.\<close>

definition LoginPacket :: shape where
  "LoginPacket = SRecord ''LoginPacket'' [(''Username'', SPrim KStr), (''Password'', SPrim KStr)]"

text \<open>\<open>PlayerInfoPacket\<close>, indexed by string keys and holding \<open>nil\<close>: a
  \<open>map[string]interface{}\<close>.\<close>

definition PlayerInfoPacket :: shape where
  "PlayerInfoPacket = SMap SAny"

text \<open>
  The nine cases of \<open>TestPrimitive\<close> with their Go types: \<open>8\<close> and \<open>-1\<close> are
  \<open>int\<close>, then \<open>uint8\<close>, \<open>int32\<close>, \<open>int64\<close>, \<open>float32(32.342)\<close> and
  \<open>float64(-3321.34)\<close> as their IEEE-754 bits, \<open>[...]int{2, 3, 1}\<close> and the
  \<open>map[string]int\<close> \<open>{"test": 234}\<close>.
\<close>

definition test_primitive_cases :: "(shape \<times> val) list" where
  "test_primitive_cases =
     [(SPrim (KInt 64 True), VInt 8),
      (SPrim (KInt 64 True), VInt (-1)),
      (SPrim (KInt 8 False), VInt 3),
      (SPrim (KInt 32 True), VInt 43),
      (SPrim (KInt 64 True), VInt 1435435345),
      (SPrim KF32, VF32 0x42015E35),
      (SPrim KF64, VF64 0xC0A9F2AE147AE148),
      (SArray 3 (SPrim (KInt 64 True)), VArr [VInt 2, VInt 3, VInt 1]),
      (SMap (SPrim (KInt 64 True)), VMap [(''test'', VInt 234)])]"

section \<open>The tests\<close>

text \<open>
  One iteration of the loop of \<open>TestPrimitive\<close>: register the case's type under
  \<open>PTest\<close> (the global \<open>PacketMap\<close> keeps it afterwards), encode into a fresh
  buffer, decode from it, and check the id and deep equality.
\<close>

definition primitive_iteration :: "registry \<Rightarrow> byte \<Rightarrow> shape \<Rightarrow> val \<Rightarrow> registry \<times> bool" where
  "primitive_iteration reg ptest sh v =
     (let reg' = reg(ptest \<mapsto> sh) in
      (reg',
       case encode_packet reg' ptest v of
         Inl e \<Rightarrow> False
       | Inr buf \<Rightarrow>
           (case decode_packet reg' buf of
              (Inl e, _) \<Rightarrow> False
            | (Inr pkt, _) \<Rightarrow> pid pkt = ptest \<and> obj pkt = v)))"

fun primitive_loop :: "registry \<Rightarrow> byte \<Rightarrow> (shape \<times> val) list \<Rightarrow> registry \<times> bool" where
  "primitive_loop reg ptest [] = (reg, True)"
| "primitive_loop reg ptest ((sh, v) # cs) =
     (case primitive_iteration reg ptest sh v of
        (reg', True) \<Rightarrow> primitive_loop reg' ptest cs
      | (reg', False) \<Rightarrow> (reg', False))"

definition TestPrimitive :: "registry \<Rightarrow> byte \<Rightarrow> registry \<times> bool" where
  "TestPrimitive reg ptest = primitive_loop reg ptest test_primitive_cases"

definition login_obj :: val where
  "login_obj = VRec ''LoginPacket'' [(''Username'', VStr ''genius''), (''Password'', VStr ''0101001'')]"

text \<open>
  \<open>TestStruct\<close>: encode the login under \<open>PLogin\<close>, decode it, and check that the
  result is a \<open>LoginPacket\<close> with the two field values.
\<close>

definition TestStruct :: "registry \<Rightarrow> byte \<Rightarrow> bool" where
  "TestStruct reg plogin =
     (case encode_packet reg plogin login_obj of
        Inl e \<Rightarrow> False
      | Inr buf \<Rightarrow>
          (case decode_packet reg buf of
             (Inl e, _) \<Rightarrow> False
           | (Inr pkt, _) \<Rightarrow>
               (case obj pkt of
                  VRec nm fs \<Rightarrow>
                    nm = ''LoginPacket'' \<and> map_of fs ''Username'' = Some (VStr ''genius'')
                    \<and> map_of fs ''Password'' = Some (VStr ''0101001'')
                | _ \<Rightarrow> False)))"

text \<open>\<open>TestExport\<close>: the same login through \<open>Write\<close> and \<open>Read\<close>; only errors fail.\<close>

definition TestExport :: "registry \<Rightarrow> byte \<Rightarrow> bool" where
  "TestExport reg plogin =
     (case Write reg plogin login_obj of
        Inl e \<Rightarrow> False
      | Inr buf \<Rightarrow> (case Read reg buf of (Inl e, _) \<Rightarrow> False | (Inr v, _) \<Rightarrow> True))"

text \<open>
  \<open>reflect.TypeOf(pkt) != v\<close> (line 107): the dynamic type of a value is never an
  interface type, so a value never has type \<open>interface{}\<close> (\<open>SAny\<close>; for a nil
  interface \<open>TypeOf\<close> is nil); for the other shapes the decoded value has the
  registered type exactly when it conforms to it (an \<open>interface{}\<close> position
  inside a type accepts any value).
\<close>

definition type_of_is :: "shape \<Rightarrow> val \<Rightarrow> bool" where
  "type_of_is sh v = (sh \<noteq> SAny \<and> conforms sh v)"

text \<open>
  \<open>TestType\<close>: for every registered id but \<open>PMax\<close>, write the zero value of its
  type to the shared buffer, read one packet back, and check that its type is the
  registered one.
\<close>

fun type_loop :: "registry \<Rightarrow> bytes \<Rightarrow> (byte \<times> shape) list \<Rightarrow> bool" where
  "type_loop reg buf [] = True"
| "type_loop reg buf ((k, sh) # es) =
     (case Write reg k (zero_value sh) of
        Inl e \<Rightarrow> False
      | Inr out \<Rightarrow>
          (case Read reg (buf @ out) of
             (Inl e, _) \<Rightarrow> False
           | (Inr v, rest) \<Rightarrow> type_of_is sh v \<and> type_loop reg rest es))"

definition TestType :: "registry \<Rightarrow> byte \<Rightarrow> bool" where
  "TestType reg pmax = type_loop reg [] (all_entries reg pmax)"

definition player_info_obj :: val where
  "player_info_obj =
     VMap [(''scene'', VNil), (''mp'', VNil), (''hp'', VNil), (''name'', VNil),
           (''speed'', VNil), (''pos'', VNil)]"

definition test_map_input :: "byte \<Rightarrow> bytes" where
  "test_map_input ppi =
     [0, 0, 0, 35, ppi, 134, 162, 104, 112, 192, 164, 110, 97, 109, 101, 192, 165, 115, 112,
      101, 101, 100, 192, 163, 112, 111, 115, 192, 165, 115, 99, 101, 110, 101, 192, 162, 109,
      112, 192]"

text \<open>
  \<open>TestMap\<close>: writing the six-key player info must succeed, and reading the
  literal frame must give a value of the \<open>PlayerInfoPacket\<close> type (a mapping).
\<close>

definition TestMap :: "registry \<Rightarrow> byte \<Rightarrow> bool" where
  "TestMap reg ppi =
     (case Write reg ppi player_info_obj of
        Inl e \<Rightarrow> False
      | Inr out \<Rightarrow>
          (case Read reg (test_map_input ppi) of
             (Inl e, _) \<Rightarrow> False
           | (Inr v, _) \<Rightarrow> conforms PlayerInfoPacket v))"

text \<open>
  \<open>sample_ok sh v\<close>: a test case whose value has exactly its type, is a Go value,
  and is small enough for a frame.  \<open>player_info_payload\<close> is the payload of the
  literal frame of \<open>TestMap\<close>.
\<close>

definition sample_ok :: "shape \<Rightarrow> val \<Rightarrow> bool" where
  "sample_ok sh v \<longleftrightarrow> exact sh v \<and> wf_value v \<and> wf_shape sh \<and> Suc (length (encode_value v)) < 2 ^ 32"

definition player_info_payload :: bytes where
  "player_info_payload = drop 5 (test_map_input 0)"

section \<open>The tests pass\<close>

lemma iteration_roundtrip:
  assumes "exact sh v" "wf_value v" "wf_shape sh" "Suc (length (encode_value v)) < 2 ^ 32"
  shows "snd (primitive_iteration reg ptest sh v)"
proof -
  let ?reg = "reg(ptest \<mapsto> sh)"
  have e: "encode_packet ?reg ptest v = Inr (write_frame ptest (encode_value v))"
    using assms by (intro encode_packet_exact) simp_all
  have d: "decode_packet ?reg (write_frame ptest (encode_value v) @ []) = (Inr \<lparr>pid = ptest, obj = v\<rparr>, [])"
    using assms by (intro decode_packet_roundtrip) simp_all
  show ?thesis
    using e d by (simp add: primitive_iteration_def)
qed

text \<open>
  C1: the loop of \<open>TestPrimitive\<close> passes on every list of cases whose values
  have their case's type exactly and fit the wire format: for each, encoding under
  \<open>PTest\<close> and decoding gives back the id and a deeply equal value.
\<close>

theorem primitive_loop_passes:
  "list_all (\<lambda>(sh, v). sample_ok sh v) cs \<Longrightarrow> snd (primitive_loop reg ptest cs)"
proof (induction cs arbitrary: reg)
  case Nil
  then show ?case by simp
next
  case (Cons c cs)
  obtain sh v where c: "c = (sh, v)" by fastforce
  with Cons.prems have ok: "snd (primitive_iteration reg ptest sh v)"
    by (intro iteration_roundtrip) (simp_all add: sample_ok_def)
  obtain reg' where it: "primitive_iteration reg ptest sh v = (reg', True)"
    using ok by (cases "primitive_iteration reg ptest sh v") simp
  have "snd (primitive_loop reg' ptest cs)"
    using Cons.prems c by (intro Cons.IH) simp
  with c it show ?case by simp
qed

lemma test_primitive_cases_ok: "list_all (\<lambda>(sh, v). sample_ok sh v) test_primitive_cases"
  by (simp add: test_primitive_cases_def sample_ok_def exact_def fits_int_def encode_int_def
      arr_header_def map_header_def encode_str_def str_header_def)

text \<open>Its witness is \<open>TestPrimitive\<close> itself: the nine cases of the test.\<close>

theorem TestPrimitive_passes_witness:
  "list_all (\<lambda>(sh, v). sample_ok sh v) test_primitive_cases \<and>
   snd (primitive_loop Map.empty 2 test_primitive_cases)"
  using test_primitive_cases_ok primitive_loop_passes [OF test_primitive_cases_ok] by simp

text \<open>
  The first case of \<open>TestPrimitive\<close>, the \<open>int\<close> 8 under \<open>PTest\<close>, goes on the
  wire as the length 2 (id byte and one payload byte), the id, and the positive
  fixint byte \<open>0x08\<close>; spec scenario A says length 5.
\<close>

lemma scenario_a:
  "encode_packet (reg(ptest \<mapsto> fst (hd test_primitive_cases))) ptest (snd (hd test_primitive_cases))
   = Inr [0, 0, 0, 2, ptest, 8]"
  by (simp add: test_primitive_cases_def encode_packet_def conforms_def fits_int_def
      write_frame_def encode_int_def be_bytes_4 tag_byte_def)


lemma all_entries_set:
  "set (all_entries reg pmax) = {(k, sh). k \<noteq> pmax \<and> reg k = Some sh}"
proof (intro equalityI subsetI)
  fix x assume "x \<in> set (all_entries reg pmax)"
  then show "x \<in> {(k, sh). k \<noteq> pmax \<and> reg k = Some sh}"
    by (auto simp: all_entries_def)
next
  fix x assume "x \<in> {(k, sh). k \<noteq> pmax \<and> reg k = Some sh}"
  then obtain k sh where x: "x = (k, sh)" and k: "k \<noteq> pmax" and r: "reg k = Some sh"
    by blast
  have "k \<in> set (filter (\<lambda>i. i \<noteq> pmax \<and> reg i \<noteq> None) (map of_nat [0..<256]))"
    using byte_enum [of k] k r by simp
  then have "(k, the (reg k)) \<in> set (all_entries reg pmax)"
    unfolding all_entries_def set_map by (rule imageI)
  with x r show "x \<in> set (all_entries reg pmax)" by simp
qed

lemma login_obj_ok: "exact LoginPacket login_obj \<and> wf_value login_obj \<and> wf_shape LoginPacket \<and>
    Suc (length (encode_value login_obj)) < 2 ^ 32"
  by (simp add: LoginPacket_def login_obj_def exact_def map_header_def encode_str_def str_header_def)

text \<open>
  C3: \<open>TestStruct\<close> and \<open>TestExport\<close> pass whenever \<open>PLogin\<close> is registered as
  \<open>LoginPacket\<close>: the login record survives the encoder and decoder with both fields.
\<close>

theorem TestStruct_passes:
  assumes "reg plogin = Some LoginPacket"
  shows "TestStruct reg plogin \<and> TestExport reg plogin"
proof -
  have ok: "exact LoginPacket login_obj" "wf_value login_obj" "wf_shape LoginPacket"
    "Suc (length (encode_value login_obj)) < 2 ^ 32"
    using login_obj_ok by simp_all
  have e: "encode_packet reg plogin login_obj = Inr (write_frame plogin (encode_value login_obj))"
    by (rule encode_packet_exact [where reg = reg and p = plogin, OF assms ok(1,2)])
  have d: "decode_packet reg (write_frame plogin (encode_value login_obj) @ []) =
      (Inr \<lparr>pid = plogin, obj = login_obj\<rparr>, [])"
    by (rule decode_packet_roundtrip [where reg = reg and p = plogin, OF assms ok])
  show ?thesis
    using e d by (simp add: TestStruct_def TestExport_def Write_def Read_def login_obj_def)
qed

lemma type_loop_iff:
  "(\<And>k sh. (k, sh) \<in> set es \<Longrightarrow>
      reg k = Some sh \<and> wf_shape sh \<and> Suc (length (encode_value (zero_value sh))) < 2 ^ 32) \<Longrightarrow>
   type_loop reg [] es \<longleftrightarrow> (\<forall>(k, sh) \<in> set es. sh \<noteq> SAny)"
proof (induction es)
  case Nil
  then show ?case by simp
next
  case (Cons e es)
  obtain k sh where e: "e = (k, sh)" by fastforce
  with Cons.prems have h: "reg k = Some sh" "wf_shape sh"
    "Suc (length (encode_value (zero_value sh))) < 2 ^ 32" by auto
  have w: "Write reg k (zero_value sh) = Inr (write_frame k (encode_value (zero_value sh)))"
    using h by (simp add: Write_def encode_packet_exact zero_exact zero_wf)
  have r: "Read reg (write_frame k (encode_value (zero_value sh)) @ []) = (Inr (zero_value sh), [])"
    using h by (simp add: Read_def decode_packet_roundtrip zero_exact zero_wf del: append_Nil2)
  have "type_loop reg [] es \<longleftrightarrow> (\<forall>(k, sh) \<in> set es. sh \<noteq> SAny)"
    using Cons.prems by (intro Cons.IH) auto
  with e w r h show ?case
    by (simp add: type_of_is_def exact_conforms zero_exact)
qed

text \<open>
  C2: for every registry whose shapes are well formed and whose zero values fit a
  frame, \<open>TestType\<close> passes exactly when no registered id but \<open>PMax\<close> has the
  type \<open>interface{}\<close>: each other zero value comes back with its registered type
  and the shared buffer is empty again after each round, while an \<open>interface{}\<close>
  entry reads back as a value whose dynamic type is never that interface.
\<close>

theorem TestType_passes_iff:
  assumes "\<forall>(k, sh) \<in> set (all_entries reg pmax).
             wf_shape sh \<and> Suc (length (encode_value (zero_value sh))) < 2 ^ 32"
  shows "TestType reg pmax \<longleftrightarrow> (\<forall>(k, sh) \<in> set (all_entries reg pmax). sh \<noteq> SAny)"
  unfolding TestType_def
  by (rule type_loop_iff) (use assms in \<open>auto simp: all_entries_set\<close>)

theorem TestType_passes_iff_witness:
  "TestType (Map.empty(1 \<mapsto> LoginPacket)) 255 \<and> \<not> TestType (Map.empty(1 \<mapsto> SAny)) 255"
proof -
  have e1: "set (all_entries (Map.empty(1 \<mapsto> LoginPacket)) 255) = {(1, LoginPacket)}"
    by (auto simp: all_entries_set split: if_splits)
  have e2: "set (all_entries (Map.empty(1 \<mapsto> SAny)) 255) = {(1, SAny)}"
    by (auto simp: all_entries_set split: if_splits)
  have h1: "\<forall>(k, sh) \<in> set (all_entries (Map.empty(1 \<mapsto> LoginPacket)) 255).
      wf_shape sh \<and> Suc (length (encode_value (zero_value sh))) < 2 ^ 32"
    unfolding e1 by (simp add: LoginPacket_def map_header_def encode_str_def str_header_def)
  have h2: "\<forall>(k, sh) \<in> set (all_entries (Map.empty(1 \<mapsto> SAny)) 255).
      wf_shape sh \<and> Suc (length (encode_value (zero_value sh))) < 2 ^ 32"
    unfolding e2 by simp
  show ?thesis
    using TestType_passes_iff [OF h1] TestType_passes_iff [OF h2] e1 e2
    by (simp add: LoginPacket_def)
qed

lemma test_map_input_frame: "test_map_input ppi = write_frame ppi player_info_payload"
  by (simp add: test_map_input_def player_info_payload_def write_frame_def be_bytes_4)

lemma player_info_payload_decode:
  "decode player_info_payload =
     Inr (VMap [(''hp'', VNil), (''name'', VNil), (''speed'', VNil), (''pos'', VNil),
                (''scene'', VNil), (''mp'', VNil)], [])"
  by code_simp

text \<open>
  C4: \<open>TestMap\<close> passes when \<open>PPlayerInfo\<close> is registered as the generic mapping
  type: the literal frame (fixmap tag \<open>0x86\<close>, six string keys bound to nil)
  decodes to a mapping, not a record.
\<close>

theorem TestMap_passes:
  assumes "reg ppi = Some PlayerInfoPacket"
  shows "TestMap reg ppi"
proof -
  have w: "Write reg ppi player_info_obj = Inr (write_frame ppi (encode_value player_info_obj))"
    using assms by (simp add: Write_def encode_packet_def player_info_obj_def PlayerInfoPacket_def
        conforms_def)
  have len: "Suc (length player_info_payload) < 2 ^ 32"
    by (simp add: player_info_payload_def test_map_input_def)
  have r: "read_frame (test_map_input ppi) = (Inr (ppi, player_info_payload), [])"
    using read_write_frame [OF len, of ppi "[]"] by (simp add: test_map_input_frame)
  show ?thesis
    using assms w r
    by (simp add: TestMap_def Read_def decode_packet_def lookup_def player_info_payload_decode
        PlayerInfoPacket_def conforms_def)
qed

text \<open>The witness of C3: a registry holding only the login type.\<close>

theorem TestStruct_passes_witness:
  "(Map.empty(3 \<mapsto> LoginPacket)) 3 = Some LoginPacket \<and>
   TestStruct (Map.empty(3 \<mapsto> LoginPacket)) 3 \<and> TestExport (Map.empty(3 \<mapsto> LoginPacket)) 3"
  using TestStruct_passes [of "Map.empty(3 \<mapsto> LoginPacket)" 3] by simp

text \<open>The witness of C4: a registry holding only the player-info type.\<close>

theorem TestMap_passes_witness:
  "(Map.empty(4 \<mapsto> PlayerInfoPacket)) 4 = Some PlayerInfoPacket \<and>
   TestMap (Map.empty(4 \<mapsto> PlayerInfoPacket)) 4"
  using TestMap_passes [of "Map.empty(4 \<mapsto> PlayerInfoPacket)" 4] by simp

end
