(* ===== verification/Utils.thy ===== *)
theory Utils
  imports Prelude
begin

text \<open>
  \<^verbatim>\<open>src/utils.go\<close>: the geometry records shared by the scene and the players,
  the squared distance \<open>Distance\<close>, and the package's error type with its message
  \<open>Error()\<close> and constructor \<open>NewError\<close>.  A Go \<open>float32\<close> is modelled as a
  real number (type \<open>float32\<close> of the prelude): the rounding of IEEE single
  precision is not modelled, so the theorems about \<open>Distance\<close> hold of the exact
  arithmetic the code denotes.  \<open>strconv.Itoa\<close> is modelled by \<open>itoa\<close>, and the
  caller information of \<open>runtime.Caller(1)\<close> is an argument of \<open>NewError\<close>.
\<close>

type_synonym float32 = real

section \<open>Geometry\<close>

record Rect =
  rect_X :: float32
  rect_Y :: float32
  rect_W :: float32
  rect_H :: float32

record Point =
  point_X :: int
  point_Y :: int

record FPoint =
  fpoint_X :: float32
  fpoint_Y :: float32

text \<open>\<open>Distance\<close> returns \<open>dx * dx + dy * dy\<close>: the square of the Euclidean distance.\<close>

definition Distance :: "FPoint \<Rightarrow> FPoint \<Rightarrow> float32" where
  "Distance p1 p2 =
     (let dx = fpoint_X p1 - fpoint_X p2; dy = fpoint_Y p1 - fpoint_Y p2 in dx * dx + dy * dy)"

section \<open>Errors\<close>

record Error =
  err_e :: string
  err_file :: string
  err_line :: int

text \<open>\<open>strconv.Itoa\<close>: the decimal digits of an integer, with a leading minus sign.\<close>

fun nat_digits :: "nat \<Rightarrow> string" where
  "nat_digits n =
     (if n < 10 then [char_of (48 + n)] else nat_digits (n div 10) @ [char_of (48 + n mod 10)])"

definition itoa :: "int \<Rightarrow> string" where
  "itoa i = (if i < 0 then CHR ''-'' # nat_digits (nat (- i)) else nat_digits (nat i))"

text \<open>\<open>(*Error).Error()\<close>: the text, a newline, \<open>at\<close>, and \<open>file:line\<close>.\<close>

definition Error_msg :: "Error \<Rightarrow> string" where
  "Error_msg e = err_e e @ [CHR 0x0A] @ ''at '' @ err_file e @ '':'' @ itoa (err_line e)"

text \<open>
  \<open>NewError(str)\<close>: the error with text \<open>str\<close>; the file and line are those of the
  caller when \<open>runtime.Caller(1)\<close> reports them (\<open>Some (file, line)\<close>), and
  stay empty and 0 otherwise.
\<close>

definition NewError :: "string \<Rightarrow> (string \<times> int) option \<Rightarrow> Error" where
  "NewError str caller =
     (let err = \<lparr>err_e = str, err_file = '''', err_line = 0\<rparr> in
      case caller of
        Some (file, line) \<Rightarrow> err\<lparr>err_file := file, err_line := line\<rparr>
      | None \<Rightarrow> err)"

text \<open>
  Reading a message back: \<open>atoi\<close> parses what \<open>itoa\<close> prints, and
  \<open>line_of_msg\<close> takes the text after the last colon of a message.
\<close>

definition digit_val :: "char \<Rightarrow> nat option" where
  "digit_val c =
     (if (48::nat) \<le> of_char c \<and> of_char c < (58::nat) then Some (of_char c - 48) else None)"

fun digits_val :: "nat \<Rightarrow> string \<Rightarrow> nat option" where
  "digits_val acc [] = Some acc"
| "digits_val acc (c # cs) =
     (case digit_val c of None \<Rightarrow> None | Some d \<Rightarrow> digits_val (10 * acc + d) cs)"

definition atoi :: "string \<Rightarrow> int option" where
  "atoi s =
     (case s of
        [] \<Rightarrow> None
      | c # cs \<Rightarrow>
          if c = CHR ''-'' then (if cs = [] then None else map_option (\<lambda>n. - int n) (digits_val 0 cs))
          else map_option int (digits_val 0 s))"

definition line_of_msg :: "string \<Rightarrow> int option" where
  "line_of_msg s = atoi (rev (takeWhile (\<lambda>c. c \<noteq> CHR '':'') (rev s)))"

text \<open>\<open>fpoint_c p\<close>: the point as a complex number, to compare with the library's norm.\<close>

definition fpoint_c :: "FPoint \<Rightarrow> complex" where
  "fpoint_c p = Complex (fpoint_X p) (fpoint_Y p)"

section \<open>Properties\<close>

lemma Distance_norm: "Distance p q = (cmod (fpoint_c p - fpoint_c q))\<^sup>2"
  by (simp add: Distance_def Let_def fpoint_c_def cmod_def power2_eq_square)

text \<open>
  C6: \<open>Distance\<close> is the square of the Euclidean distance, so comparing it with
  a bound \<open>r\<^sup>2\<close> (not \<open>r\<close>) is comparing the distance with \<open>r\<close>.
\<close>

theorem Distance_lt_iff:
  assumes "0 \<le> r"
  shows "Distance p q < r\<^sup>2 \<longleftrightarrow> cmod (fpoint_c p - fpoint_c q) < r"
proof -
  have "0 \<le> cmod (fpoint_c p - fpoint_c q)" by simp
  then show ?thesis
    using assms by (auto simp: Distance_norm intro: power_strict_mono power2_less_imp_less)
qed

theorem Distance_lt_iff_witness:
  "Distance \<lparr>fpoint_X = 0, fpoint_Y = 0\<rparr> \<lparr>fpoint_X = 3, fpoint_Y = 4\<rparr> < 6\<^sup>2
   \<longleftrightarrow> cmod (fpoint_c \<lparr>fpoint_X = 0, fpoint_Y = 0\<rparr> - fpoint_c \<lparr>fpoint_X = 3, fpoint_Y = 4\<rparr>) < 6"
  by (rule Distance_lt_iff) simp

lemma Distance_sym: "Distance p q = Distance q p"
  by (simp add: Distance_def algebra_simps)

lemma Distance_eq_0: "Distance p q = 0 \<longleftrightarrow> p = q"
proof -
  have "Distance p q = 0 \<longleftrightarrow> fpoint_c p = fpoint_c q"
    by (simp add: Distance_norm)
  also have "\<dots> \<longleftrightarrow> p = q"
    by (cases p, cases q) (simp add: fpoint_c_def)
  finally show ?thesis .
qed

lemma nat_digits_nonempty [simp]: "nat_digits n \<noteq> []"
  by (subst nat_digits.simps) simp

declare nat_digits.simps [simp del]

lemma digit_val_char [simp]: "d < 10 \<Longrightarrow> digit_val (char_of (48 + d)) = Some d"
  by (simp add: digit_val_def of_char_of)

lemma digits_val_nat_digits:
  "digits_val acc (nat_digits n @ cs) = digits_val (acc * 10 ^ length (nat_digits n) + n) cs"
proof (induction n arbitrary: acc cs rule: nat_digits.induct)
  case (1 n)
  show ?case
  proof (cases "n < 10")
    case True
    then have "nat_digits n = [char_of (48 + n)]"
      by (subst nat_digits.simps) simp
    with True show ?thesis by (simp add: mult.commute)
  next
    case False
    then have "nat_digits n = nat_digits (n div 10) @ [char_of (48 + n mod 10)]"
      by (subst nat_digits.simps) simp
    moreover have "acc * 10 ^ length (nat_digits (n div 10)) * 10 + (n div 10 * 10 + n mod 10)
        = acc * (10 * 10 ^ length (nat_digits (n div 10))) + n"
      by simp
    ultimately show ?thesis
      using False "1.IH" by (simp add: algebra_simps)
  qed
qed

lemma digits_val_nat_digits_Nil: "digits_val 0 (nat_digits n) = Some n"
  using digits_val_nat_digits [of 0 n "[]"] by simp

lemma nat_digits_hd: "hd (nat_digits n) \<noteq> CHR ''-''"
proof (induction n rule: nat_digits.induct)
  case (1 n)
  show ?case
  proof (cases "n < 10")
    case True
    have h1: "of_char (char_of (48 + n)) = (48 + n :: nat)"
      using True by (simp add: of_char_of)
    have h2: "of_char (CHR ''-'') = (45 :: nat)"
      by simp
    have "char_of (48 + n) \<noteq> CHR ''-''"
    proof
      assume "char_of (48 + n) = CHR ''-''"
      then have "of_char (char_of (48 + n)) = (of_char (CHR ''-'') :: nat)"
        by simp
      with h1 h2 show False by simp
    qed
    with True show ?thesis by (subst nat_digits.simps) simp
  next
    case False
    with "1.IH" show ?thesis by (subst nat_digits.simps) simp
  qed
qed

lemma atoi_itoa: "atoi (itoa i) = Some i"
proof (cases "i < 0")
  case True
  then show ?thesis
    by (simp add: itoa_def atoi_def digits_val_nat_digits_Nil)
next
  case False
  obtain c cs where d: "nat_digits (nat i) = c # cs"
    by (cases "nat_digits (nat i)") simp_all
  have "c \<noteq> CHR ''-''" using nat_digits_hd [of "nat i"] d by simp
  with False d show ?thesis
    using digits_val_nat_digits_Nil [of "nat i"] by (simp add: itoa_def atoi_def)
qed


lemma nat_digits_digits: "c \<in> set (nat_digits n) \<Longrightarrow> digit_val c \<noteq> None"
proof (induction n rule: nat_digits.induct)
  case (1 n)
  show ?case
  proof (cases "n < 10")
    case True
    with "1.prems" show ?thesis by (subst (asm) nat_digits.simps) auto
  next
    case False
    with "1.prems" "1.IH" show ?thesis by (subst (asm) nat_digits.simps) auto
  qed
qed

lemma colon_notin_itoa: "CHR '':'' \<notin> set (itoa i)"
proof
  assume "CHR '':'' \<in> set (itoa i)"
  then have "digit_val (CHR '':'') \<noteq> None"
    by (auto simp: itoa_def split: if_splits dest: nat_digits_digits)
  then show False
    by (simp add: digit_val_def)
qed

lemma takeWhile_upto:
  "(\<forall>c \<in> set xs. P c) \<Longrightarrow> \<not> P y \<Longrightarrow> takeWhile P (xs @ y # ys) = xs"
  by (induction xs) simp_all

text \<open>The line at the end of an \<open>Error()\<close> message reads back, whatever the
  error text and file name contain.\<close>

lemma line_of_msg_Error_msg: "line_of_msg (Error_msg e) = Some (err_line e)"
proof -
  let ?P = "\<lambda>c. c \<noteq> CHR '':''"
  have "rev (Error_msg e) = rev (itoa (err_line e)) @ CHR '':'' # rev (err_e e @ [CHR 0x0A] @ ''at '' @ err_file e)"
    by (simp add: Error_msg_def)
  moreover have "\<forall>c \<in> set (rev (itoa (err_line e))). ?P c"
    using colon_notin_itoa by auto
  ultimately have "takeWhile ?P (rev (Error_msg e)) = rev (itoa (err_line e))"
    by (simp add: takeWhile_upto)
  then show ?thesis
    by (simp add: line_of_msg_def atoi_itoa)
qed

text \<open>
  C5: an error made by \<open>NewError(str)\<close> keeps \<open>str\<close> as its text, and the line
  number at the end of its \<open>Error()\<close> message (after the last colon, printed by
  \<open>strconv.Itoa\<close>) reads back as the caller's line that \<open>runtime.Caller\<close>
  reported, or as 0 when it reported none.
\<close>

theorem NewError_line:
  "err_e (NewError str caller) = str
   \<and> line_of_msg (Error_msg (NewError str caller)) = Some (case caller of Some (f, l) \<Rightarrow> l | None \<Rightarrow> 0)"
  by (cases caller) (auto simp: NewError_def line_of_msg_Error_msg)

end
