(* ===== verification/Scene.thy ===== *)
theory Scene
  imports Utils
begin

text \<open>
  \<^verbatim>\<open>src/scene/map.go\<close>: a scene map holds the players logged into it and moves
  them on every heartbeat.  The players are Go pointers (\<open>[]*player.Player\<close>),
  and \<open>Login\<close> and \<open>HeartBeat\<close> write through them, so the model has an explicit
  store: \<open>heap\<close> maps a pointer to the player it points to, \<open>None\<close> being a nil
  or dangling pointer whose dereference panics.  The fields of \<open>player.Player\<close>
  (declared in a package that is not among the sources) are those \<open>map.go\<close> uses;
  \<open>Speed()\<close> is read as a stored speed.  The channels and the AOI of the map are
  not used by the modelled methods and are left out; a dereference of nil is the
  error \<open>NilDeref\<close>.
\<close>

section \<open>Players and the store\<close>

datatype pstate = STAND | MOVE

record Player =
  p_Id :: "32 word"
  p_Scene :: string
  p_State :: pstate
  p_Pos :: FPoint
  p_To :: FPoint
  p_Speed :: float32

type_synonym ptr = nat
type_synonym heap = "ptr \<Rightarrow> Player option"

datatype panic = NilDeref

text \<open>\<open>data.Map\<close>, embedded in the scene map: only its \<open>Title\<close> is used.\<close>

record DataMap =
  Title :: string

record Map =
  m_Title :: string
  m_players :: "ptr list"

section \<open>The methods of Map\<close>

text \<open>
  \<open>New(m)\<close> allocates a fresh \<open>Map\<close> with an empty player list (capacity 200)
  and its channels; the \<open>data.Map\<close> argument is never stored, so the new map's
  embedded \<open>data.Map\<close> is the zero value and its \<open>Title\<close> is empty.
\<close>

definition New :: "DataMap \<Rightarrow> Map" where
  "New m = \<lparr>m_Title = '''', m_players = []\<rparr>"

text \<open>
  \<open>Player(playerId)\<close>: the bounds check compares with \<open>uint32(len(m.players))\<close>,
  the length truncated to 32 bits.
\<close>

definition get_player :: "Map \<Rightarrow> 32 word \<Rightarrow> ptr option" where
  "get_player m playerId =
     (if of_nat (length (m_players m)) \<le> playerId then None
      else Some (m_players m ! unat playerId))"

text \<open>
  \<open>math.Atan2(y, x)\<close> is the argument of the complex number \<open>x + iy\<close>
  (\<open>Arg 0 = 0\<close>, as \<open>Atan2(0, 0) = 0\<close>).
\<close>

definition atan2 :: "real \<Rightarrow> real \<Rightarrow> real" where
  "atan2 y x = Arg (Complex x y)"

text \<open>
  The body of the loop of \<open>HeartBeat\<close> for one player \<open>pc\<close>: a moving player
  whose \<open>Distance\<close> to its target is below its speed stops on the target;
  otherwise it advances by its speed along the direction of the target.
\<close>

definition heartbeat_player :: "Player \<Rightarrow> Player" where
  "heartbeat_player pc =
     (if p_State pc = MOVE then
        (let v = p_Speed pc in
         if Distance (p_Pos pc) (p_To pc) < v then
           pc\<lparr>p_State := STAND,
              p_Pos := (p_Pos pc)\<lparr>fpoint_X := fpoint_X (p_To pc), fpoint_Y := fpoint_Y (p_To pc)\<rparr>\<rparr>
         else
           (let dx = fpoint_X (p_To pc) - fpoint_X (p_Pos pc);
                dy = fpoint_Y (p_To pc) - fpoint_Y (p_Pos pc);
                angle = atan2 dy dx;
                vx = v * cos angle;
                vy = v * sin angle
            in pc\<lparr>p_Pos := \<lparr>fpoint_X = fpoint_X (p_Pos pc) + vx, fpoint_Y = fpoint_Y (p_Pos pc) + vy\<rparr>\<rparr>))
      else pc)"

text \<open>
  \<open>HeartBeat()\<close>: the player loop in list order, writing each player through its
  pointer; a nil entry panics when its \<open>State\<close> is read.
\<close>

fun heartbeat_loop :: "heap \<Rightarrow> ptr list \<Rightarrow> panic + heap" where
  "heartbeat_loop h [] = Inr h"
| "heartbeat_loop h (p # ps) =
     (case h p of
        None \<Rightarrow> Inl NilDeref
      | Some pc \<Rightarrow> heartbeat_loop (h(p \<mapsto> heartbeat_player pc)) ps)"

definition HeartBeat :: "Map \<Rightarrow> heap \<Rightarrow> panic + heap" where
  "HeartBeat m h = heartbeat_loop h (m_players m)"

text \<open>
  \<open>Login(player)\<close>: append the pointer, then set the player's \<open>Id\<close> to its index
  (truncated to \<open>uint32\<close>) and its \<open>Scene\<close> to the map's title.  The error result
  is always nil; a nil player panics at the first field write.
\<close>

definition Login :: "Map \<Rightarrow> heap \<Rightarrow> ptr \<Rightarrow> panic + (Map \<times> heap)" where
  "Login m h p =
     (let idx = length (m_players m);
          m' = m\<lparr>m_players := m_players m @ [p]\<rparr>
      in case h p of
           None \<Rightarrow> Inl NilDeref
         | Some pl \<Rightarrow> Inr (m', h(p \<mapsto> pl\<lparr>p_Id := of_nat idx, p_Scene := m_Title m\<rparr>)))"

section \<open>The scene invariant and sample states\<close>

text \<open>
  What \<open>Login\<close> sets up: the players of the map are distinct live pointers, and
  the player at index \<open>i\<close> has \<open>Id = i\<close> and the map's title as its scene.
\<close>

definition scene_inv :: "Map \<Rightarrow> heap \<Rightarrow> bool" where
  "scene_inv m h =
     (distinct (m_players m) \<and>
      list_all (\<lambda>(i, p). case h p of None \<Rightarrow> False
                        | Some pl \<Rightarrow> p_Id pl = of_nat i \<and> p_Scene pl = m_Title m)
        (zip [0..<length (m_players m)] (m_players m)))"

text \<open>The store after \<open>HeartBeat\<close> of a map whose players are distinct and live.\<close>

definition heartbeat_heap :: "Map \<Rightarrow> heap \<Rightarrow> heap" where
  "heartbeat_heap m h = (\<lambda>q. if q \<in> set (m_players m) then map_option heartbeat_player (h q) else h q)"

text \<open>Sample states: a standing player, an empty map titled \<open>town\<close>.\<close>

definition pl0 :: Player where
  "pl0 = \<lparr>p_Id = 7, p_Scene = '''', p_State = STAND,
     p_Pos = \<lparr>fpoint_X = 0, fpoint_Y = 0\<rparr>, p_To = \<lparr>fpoint_X = 0, fpoint_Y = 0\<rparr>, p_Speed = 1\<rparr>"

definition m0 :: Map where
  "m0 = \<lparr>m_Title = ''town'', m_players = []\<rparr>"

text \<open>A player moving at speed 10 from the origin to \<open>(4, 0)\<close>.\<close>

definition pc_osc :: Player where
  "pc_osc = \<lparr>p_Id = 0, p_Scene = '''', p_State = MOVE,
     p_Pos = \<lparr>fpoint_X = 0, fpoint_Y = 0\<rparr>, p_To = \<lparr>fpoint_X = 4, fpoint_Y = 0\<rparr>, p_Speed = 10\<rparr>"

text \<open>The reference movement rule in complex coordinates: stop on the target when
  the squared distance is below the speed, else step by the speed along the
  direction of the target (along the x axis when already on it).\<close>

definition heartbeat_ref :: "complex \<Rightarrow> complex \<Rightarrow> real \<Rightarrow> complex" where
  "heartbeat_ref pos to v =
     (if (cmod (to - pos))\<^sup>2 < v then to else pos + of_real v * (if to = pos then 1 else sgn (to - pos)))"

section \<open>Properties\<close>

subsection \<open>Shared lemmas\<close>

lemma scene_inv_nth:
  "scene_inv m h \<longleftrightarrow> distinct (m_players m) \<and>
     (\<forall>i < length (m_players m). \<exists>pl. h (m_players m ! i) = Some pl \<and>
         p_Id pl = of_nat i \<and> p_Scene pl = m_Title m)"
  by (auto simp: scene_inv_def list_all_length split: option.splits)

lemma scene_inv_live: "scene_inv m h \<Longrightarrow> p \<in> set (m_players m) \<Longrightarrow> h p \<noteq> None"
  by (auto simp: scene_inv_nth in_set_conv_nth)

lemma Login_cases:
  assumes "Login m h p = Inr (m', h')"
  obtains pl where "h p = Some pl" "m' = m\<lparr>m_players := m_players m @ [p]\<rparr>"
    "h' = h(p \<mapsto> pl\<lparr>p_Id := of_nat (length (m_players m)), p_Scene := m_Title m\<rparr>)"
  using assms by (cases "h p") (auto simp: Login_def)

lemma get_player_in:
  assumes "get_player m i = Some p"
  shows "unat i < length (m_players m) \<and> p = m_players m ! unat i"
proof -
  have "i < of_nat (length (m_players m))" and p: "p = m_players m ! unat i"
    using assms by (auto simp: get_player_def split: if_splits)
  then have "unat i < length (m_players m) mod 2 ^ 32"
    by (simp add: word_less_nat_alt unat_of_nat)
  then show ?thesis using p by simp
qed

lemma heartbeat_player_fields [simp]:
  "p_Id (heartbeat_player pc) = p_Id pc" "p_Scene (heartbeat_player pc) = p_Scene pc"
  "p_To (heartbeat_player pc) = p_To pc" "p_Speed (heartbeat_player pc) = p_Speed pc"
  by (simp_all add: heartbeat_player_def Let_def)

lemma cmod_Complex_real [simp]: "cmod (Complex x 0) = \<bar>x\<bar>"
  by (simp add: cmod_def)

lemma cis_atan2: "cis (atan2 y x) = (if Complex x y = 0 then 1 else sgn (Complex x y))"
  by (simp add: atan2_def cis_Arg Arg_zero)

lemma Arg_pos_real: "0 < x \<Longrightarrow> Arg (Complex x 0) = 0"
  by (rule cis_Arg_unique) (simp_all add: sgn_eq complex_eq_iff cis.ctr)

lemma Arg_neg_real: "x < 0 \<Longrightarrow> Arg (Complex x 0) = pi"
  by (rule cis_Arg_unique) (simp_all add: sgn_eq complex_eq_iff cis.ctr)

lemma fpoint_c_inj: "fpoint_c p = fpoint_c q \<longleftrightarrow> p = q"
  by (cases p, cases q) (simp add: fpoint_c_def)

lemma Complex_diff_fpoint:
  "Complex (fpoint_X q - fpoint_X p) (fpoint_Y q - fpoint_Y p) = fpoint_c q - fpoint_c p"
  by (simp add: fpoint_c_def complex_eq_iff)

lemma heartbeat_player_arrive:
  assumes "p_State pc = MOVE" "Distance (p_Pos pc) (p_To pc) < p_Speed pc"
  shows "heartbeat_player pc = pc\<lparr>p_State := STAND, p_Pos := p_To pc\<rparr>"
  using assms by (simp add: heartbeat_player_def)

lemma heartbeat_player_advance:
  assumes "p_State pc = MOVE" "\<not> Distance (p_Pos pc) (p_To pc) < p_Speed pc"
  shows "p_State (heartbeat_player pc) = MOVE"
    and "fpoint_c (p_Pos (heartbeat_player pc)) =
           fpoint_c (p_Pos pc) + of_real (p_Speed pc) * cis (Arg (fpoint_c (p_To pc) - fpoint_c (p_Pos pc)))"
  using assms
  by (simp_all add: heartbeat_player_def Let_def atan2_def Complex_diff_fpoint [symmetric])
     (simp add: fpoint_c_def complex_eq_iff)

lemma heartbeat_player_direction:
  assumes "p_State pc = MOVE" "\<not> Distance (p_Pos pc) (p_To pc) < p_Speed pc"
    and "p_Pos pc \<noteq> p_To pc"
  shows "fpoint_c (p_Pos (heartbeat_player pc)) =
           fpoint_c (p_Pos pc) + of_real (p_Speed pc) * sgn (fpoint_c (p_To pc) - fpoint_c (p_Pos pc))"
proof -
  have "fpoint_c (p_To pc) - fpoint_c (p_Pos pc) \<noteq> 0"
    using assms(3) fpoint_c_inj by (metis eq_iff_diff_eq_0)
  then show ?thesis
    using heartbeat_player_advance(2) [OF assms(1,2)] by (simp add: cis_Arg)
qed


lemma cmod_sub_sgn:
  assumes "0 \<le> v" "v \<le> cmod z"
  shows "cmod (z - of_real v * sgn z) = cmod z - v"
proof (cases "z = 0")
  case True then show ?thesis using assms by simp
next
  case False
  have "z - of_real v * sgn z = of_real (cmod z - v) * sgn z"
    using False by (simp add: sgn_eq field_simps)
  then show ?thesis using False assms by (simp add: norm_mult norm_sgn flip: of_real_diff)
qed

text \<open>At a speed of at most 1, a step that does not arrive brings the player exactly
  \<open>Speed\<close> closer to its target.\<close>

lemma heartbeat_player_closer:
  assumes "p_State pc = MOVE" "\<not> Distance (p_Pos pc) (p_To pc) < p_Speed pc"
    and "0 < p_Speed pc" "p_Speed pc \<le> 1"
  shows "p_State (heartbeat_player pc) = MOVE
       \<and> cmod (fpoint_c (p_To pc) - fpoint_c (p_Pos (heartbeat_player pc)))
           = cmod (fpoint_c (p_To pc) - fpoint_c (p_Pos pc)) - p_Speed pc"
proof -
  let ?z = "fpoint_c (p_To pc) - fpoint_c (p_Pos pc)" and ?v = "p_Speed pc"
  have "?v \<le> (cmod ?z)\<^sup>2"
    using assms(2) by (simp add: Distance_norm norm_minus_commute)
  then have "?v \<le> cmod ?z"
    using assms(3,4) by (smt (verit) mult_left_le power2_eq_square norm_ge_zero)
  moreover have "p_Pos pc \<noteq> p_To pc"
    using assms(2,3) by (auto simp: Distance_def)
  ultimately have e1: "cmod (?z - of_real ?v * sgn ?z) = cmod ?z - ?v"
    and d: "fpoint_c (p_Pos (heartbeat_player pc)) = fpoint_c (p_Pos pc) + of_real ?v * sgn ?z"
    using assms(3) cmod_sub_sgn heartbeat_player_direction [OF assms(1,2)] by simp_all
  have e2: "fpoint_c (p_To pc) - fpoint_c (p_Pos (heartbeat_player pc)) = ?z - of_real ?v * sgn ?z"
    by (simp add: d)
  show ?thesis
    unfolding e2 e1 using heartbeat_player_advance(1) [OF assms(1,2)] by simp
qed

lemma heartbeat_arrives_within:
  assumes "p_State pc = MOVE" "0 < p_Speed pc" "p_Speed pc \<le> 1"
    and "cmod (fpoint_c (p_To pc) - fpoint_c (p_Pos pc)) \<le> of_nat k * p_Speed pc"
  shows "\<exists>n \<le> Suc k. p_State ((heartbeat_player ^^ n) pc) = STAND
                    \<and> p_Pos ((heartbeat_player ^^ n) pc) = p_To pc"
  using assms
proof (induction k arbitrary: pc)
  case 0
  then have "p_Pos pc = p_To pc"
    by (cases "p_Pos pc", cases "p_To pc") (simp add: fpoint_c_def complex_eq_iff)
  then have "Distance (p_Pos pc) (p_To pc) < p_Speed pc"
    using "0.prems"(2) by (simp add: Distance_def)
  then show ?case
    using "0.prems"(1) by (intro exI [of _ 1]) (simp add: heartbeat_player_arrive)
next
  case (Suc k)
  show ?case
  proof (cases "Distance (p_Pos pc) (p_To pc) < p_Speed pc")
    case False
    note c = heartbeat_player_closer [OF Suc.prems(1) False Suc.prems(2,3)]
    have "cmod (fpoint_c (p_To (heartbeat_player pc)) - fpoint_c (p_Pos (heartbeat_player pc)))
          \<le> of_nat k * p_Speed (heartbeat_player pc)"
      using c Suc.prems(4) by (simp add: algebra_simps)
    then obtain n where "n \<le> Suc k" "p_State ((heartbeat_player ^^ n) (heartbeat_player pc)) = STAND"
        "p_Pos ((heartbeat_player ^^ n) (heartbeat_player pc)) = p_To pc"
      using Suc.IH [of "heartbeat_player pc"] c Suc.prems(2,3) by auto
    then show ?thesis
      by (intro exI [of _ "Suc n"]) (simp del: funpow.simps add: funpow_Suc_right)
  next
    case True
    then show ?thesis
      using Suc.prems(1) by (intro exI [of _ 1]) (simp add: heartbeat_player_arrive)
  qed
qed

lemma oscillation: "heartbeat_player (heartbeat_player pc_osc) = pc_osc"
  by (simp add: pc_osc_def heartbeat_player_def Distance_def atan2_def Arg_pos_real Arg_neg_real)

lemma oscillation_orbit: "(heartbeat_player ^^ n) pc_osc \<in> {pc_osc, heartbeat_player pc_osc}"
  by (induction n) (use oscillation in auto)

lemma heartbeat_loop_distinct:
  assumes "distinct ps" "\<forall>p \<in> set ps. h p \<noteq> None"
  shows "heartbeat_loop h ps = Inr (\<lambda>q. if q \<in> set ps then map_option heartbeat_player (h q) else h q)"
  using assms
proof (induction ps arbitrary: h)
  case Nil then show ?case by simp
next
  case (Cons p ps)
  obtain pc where pc: "h p = Some pc" using Cons.prems(2) by auto
  have "heartbeat_loop (h(p \<mapsto> heartbeat_player pc)) ps =
          Inr (\<lambda>q. if q \<in> set ps then map_option heartbeat_player ((h(p \<mapsto> heartbeat_player pc)) q)
                   else (h(p \<mapsto> heartbeat_player pc)) q)"
    using Cons.prems by (intro Cons.IH) auto
  then show ?case
    using pc Cons.prems(1) by (auto intro!: ext)
qed

lemma heartbeat_loop_nil:
  "p \<in> set ps \<Longrightarrow> h p = None \<Longrightarrow> heartbeat_loop h ps = Inl NilDeref"
proof (induction ps arbitrary: h)
  case Nil then show ?case by simp
next
  case (Cons a ps)
  show ?case
  proof (cases "h a")
    case None then show ?thesis by simp
  next
    case (Some pc)
    then have "a \<noteq> p" using Cons.prems(2) by auto
    then have "heartbeat_loop (h(a \<mapsto> heartbeat_player pc)) ps = Inl NilDeref"
      using Cons.prems by (intro Cons.IH) auto
    then show ?thesis using Some by simp
  qed
qed


subsection \<open>Login and Player\<close>

text \<open>
  C7: \<open>Login\<close> of a live player that is not yet in the map adds it at the end of
  the map's players, changes no other object of the store, sets exactly its \<open>Id\<close>
  (its index) and \<open>Scene\<close> (the map's title), and keeps the scene invariant: the
  players stay distinct and live, and each has its index as \<open>Id\<close>.
\<close>

theorem Login_preserves_inv:
  assumes "scene_inv m h" "p \<notin> set (m_players m)"
    and "Login m h p = Inr (m', h')"
  shows "scene_inv m' h' \<and> m_players m' = m_players m @ [p] \<and> m_Title m' = m_Title m
       \<and> (\<forall>q. q \<noteq> p \<longrightarrow> h' q = h q)
       \<and> (\<exists>pl. h p = Some pl \<and> h' p = Some (pl\<lparr>p_Id := of_nat (length (m_players m)), p_Scene := m_Title m\<rparr>))"
proof -
  obtain pl where pl: "h p = Some pl" and m': "m' = m\<lparr>m_players := m_players m @ [p]\<rparr>"
   and h': "h' = h(p \<mapsto> pl\<lparr>p_Id := of_nat (length (m_players m)), p_Scene := m_Title m\<rparr>)"
    using assms(3) by (rule Login_cases)
  have "scene_inv m' h'"
    using assms(1,2) unfolding m' h' scene_inv_nth
    by (auto simp: nth_append less_Suc_eq)
  then show ?thesis
    using pl by (simp add: m' h')
qed

theorem Login_preserves_inv_witness:
  "scene_inv (m0\<lparr>m_players := [1]\<rparr>) ((Map.empty(1 \<mapsto> pl0))(1 \<mapsto> pl0\<lparr>p_Id := 0, p_Scene := ''town''\<rparr>))
   \<and> m_players (m0\<lparr>m_players := [1]\<rparr>) = m_players m0 @ [1]"
  using Login_preserves_inv [of m0 "Map.empty(1 \<mapsto> pl0)" 1 "m0\<lparr>m_players := [1]\<rparr>"
      "(Map.empty(1 \<mapsto> pl0))(1 \<mapsto> pl0\<lparr>p_Id := 0, p_Scene := ''town''\<rparr>)"]
  by (simp add: scene_inv_def m0_def Login_def)

text \<open>
  C8: in a map that satisfies the invariant and has fewer than \<open>2^32\<close> players,
  \<open>Player(Id)\<close> returns the player that carries that \<open>Id\<close>.
\<close>

theorem Player_of_Id:
  assumes "scene_inv m h" "length (m_players m) < 2 ^ 32"
    and "p \<in> set (m_players m)" "h p = Some pl"
  shows "get_player m (p_Id pl) = Some p"
proof -
  obtain i where i: "i < length (m_players m)" "m_players m ! i = p"
    using assms(3) by (auto simp: in_set_conv_nth)
  then have "p_Id pl = of_nat i" using assms(1,4) by (auto simp: scene_inv_nth)
  moreover have "unat (of_nat i :: 32 word) = i" using i(1) assms(2) by (simp add: unat_of_nat)
  moreover have "\<not> of_nat (length (m_players m)) \<le> (of_nat i :: 32 word)"
    using i(1) assms(2) by (simp add: word_le_nat_alt unat_of_nat)
  ultimately show ?thesis using i by (simp add: get_player_def)
qed

theorem Player_of_Id_witness:
  "get_player (m0\<lparr>m_players := [1]\<rparr>) 0 = Some 1"
proof -
  have "get_player (m0\<lparr>m_players := [1]\<rparr>) (p_Id (pl0\<lparr>p_Id := 0, p_Scene := ''town''\<rparr>)) = Some 1"
    by (rule Player_of_Id [where h = "Map.empty(1 \<mapsto> pl0\<lparr>p_Id := 0, p_Scene := ''town''\<rparr>)"])
       (simp_all add: scene_inv_def m0_def)
  then show ?thesis by simp
qed

text \<open>
  C9: \<open>Player\<close> never reads out of range: a pointer it returns is the entry at
  the requested index, which is below the number of players, also when that number
  exceeds \<open>2^32\<close> and \<open>uint32(len(m.players))\<close> wraps.
\<close>

theorem Player_in_range:
  assumes "get_player m i = Some p"
  shows "unat i < length (m_players m) \<and> p \<in> set (m_players m)"
  using get_player_in [OF assms] by auto

theorem Player_in_range_witness:
  "unat (0 :: 32 word) < length [5 :: ptr] \<and> (5 :: ptr) \<in> set [5]"
  using Player_in_range [of "m0\<lparr>m_players := [5]\<rparr>" 0 5] by (simp add: get_player_def)

text \<open>
  C14: the \<open>Id\<close> that \<open>Login\<close> gives is the number of players before it, modulo
  \<open>2^32\<close>: the conversion \<open>uint32(idx)\<close> wraps, so the \<open>2^32\<close>-th player gets
  \<open>Id 0\<close> again.
\<close>

theorem Login_Id_wrap:
  assumes "Login m h p = Inr (m', h')"
  shows "\<exists>pl. h' p = Some pl \<and> unat (p_Id pl) = length (m_players m) mod 2 ^ 32"
proof -
  obtain pl where "h' = h(p \<mapsto> pl\<lparr>p_Id := of_nat (length (m_players m)), p_Scene := m_Title m\<rparr>)"
    using assms by (rule Login_cases)
  then show ?thesis by (simp add: unat_of_nat)
qed

theorem Login_Id_wrap_witness:
  "\<exists>pl. ((Map.empty(1 \<mapsto> pl0))(1 \<mapsto> pl0\<lparr>p_Id := 0, p_Scene := ''town''\<rparr>)) 1 = Some pl
        \<and> unat (p_Id pl) = length (m_players m0) mod 2 ^ 32"
  using Login_Id_wrap [of m0 "Map.empty(1 \<mapsto> pl0)" 1 "m0\<lparr>m_players := [1]\<rparr>"
        "(Map.empty(1 \<mapsto> pl0))(1 \<mapsto> pl0\<lparr>p_Id := 0, p_Scene := ''town''\<rparr>)"]
  by (simp add: Login_def m0_def)


subsection \<open>HeartBeat\<close>

text \<open>
  C10: on a map that satisfies the invariant, \<open>HeartBeat\<close> does not panic, moves
  every player of the map by one step of \<open>heartbeat_player\<close>, leaves every other
  object of the store alone, and keeps the invariant.
\<close>

theorem HeartBeat_inv:
  assumes "scene_inv m h"
  shows "HeartBeat m h = Inr (heartbeat_heap m h) \<and> scene_inv m (heartbeat_heap m h)"
proof
  have "distinct (m_players m)" "\<forall>p \<in> set (m_players m). h p \<noteq> None"
    using assms scene_inv_live by (auto simp: scene_inv_def)
  then show "HeartBeat m h = Inr (heartbeat_heap m h)"
    by (simp add: HeartBeat_def heartbeat_heap_def heartbeat_loop_distinct)
  show "scene_inv m (heartbeat_heap m h)"
    using assms by (auto simp: scene_inv_nth heartbeat_heap_def)
qed

theorem HeartBeat_inv_witness:
  "HeartBeat (m0\<lparr>m_players := [1]\<rparr>) (Map.empty(1 \<mapsto> pl0\<lparr>p_Id := 0, p_Scene := ''town''\<rparr>))
     = Inr (heartbeat_heap (m0\<lparr>m_players := [1]\<rparr>) (Map.empty(1 \<mapsto> pl0\<lparr>p_Id := 0, p_Scene := ''town''\<rparr>)))"
  using HeartBeat_inv [of "m0\<lparr>m_players := [1]\<rparr>" "Map.empty(1 \<mapsto> pl0\<lparr>p_Id := 0, p_Scene := ''town''\<rparr>)"]
  by (simp add: scene_inv_def m0_def)

text \<open>
  C17: a nil pointer among the players makes \<open>HeartBeat\<close> panic, whatever its
  position in the list.
\<close>

theorem HeartBeat_nil_panics:
  assumes "p \<in> set (m_players m)" "h p = None"
  shows "HeartBeat m h = Inl NilDeref"
  using assms heartbeat_loop_nil [where p = p and ps = "m_players m" and h = h]
  by (simp add: HeartBeat_def)

theorem HeartBeat_nil_panics_witness:
  "HeartBeat (m0\<lparr>m_players := [1, 2]\<rparr>) (Map.empty(1 \<mapsto> pc_osc)) = Inl NilDeref"
  by (rule HeartBeat_nil_panics [where p = 2]) simp_all

text \<open>
  C11: a moving player that does not arrive advances by exactly \<open>|Speed|\<close> per
  heartbeat, keeps moving, and, when it is not on its target, moves along the
  direction of the target (against it for a negative speed).
\<close>

theorem heartbeat_step_length:
  assumes "p_State pc = MOVE" "\<not> Distance (p_Pos pc) (p_To pc) < p_Speed pc"
  shows "p_State (heartbeat_player pc) = MOVE
       \<and> cmod (fpoint_c (p_Pos (heartbeat_player pc)) - fpoint_c (p_Pos pc)) = \<bar>p_Speed pc\<bar>
       \<and> (p_Pos pc \<noteq> p_To pc \<longrightarrow>
            fpoint_c (p_Pos (heartbeat_player pc)) - fpoint_c (p_Pos pc)
              = of_real (p_Speed pc) * sgn (fpoint_c (p_To pc) - fpoint_c (p_Pos pc)))"
  using heartbeat_player_advance [OF assms] heartbeat_player_direction [OF assms]
  by (simp add: norm_mult)

theorem heartbeat_step_length_witness:
  "p_State (heartbeat_player pc_osc) = MOVE
   \<and> cmod (fpoint_c (p_Pos (heartbeat_player pc_osc)) - fpoint_c (p_Pos pc_osc)) = 10"
  using heartbeat_step_length [of pc_osc] by (simp add: pc_osc_def Distance_def fpoint_c_def norm_sgn)

text \<open>
  C12: at a speed in \<open>(0, 1]\<close>, a moving player arrives: after finitely many
  heartbeats it stands on its target.  (\<open>Distance\<close> is squared, and for such a
  speed the squared test stops the player no later than the exact one would.)
\<close>

theorem heartbeat_liveness:
  assumes "p_State pc = MOVE" "0 < p_Speed pc" "p_Speed pc \<le> 1"
  shows "\<exists>n. p_State ((heartbeat_player ^^ n) pc) = STAND
           \<and> p_Pos ((heartbeat_player ^^ n) pc) = p_To pc"
proof -
  obtain k :: nat where "cmod (fpoint_c (p_To pc) - fpoint_c (p_Pos pc)) / p_Speed pc \<le> of_nat k"
    using real_arch_simple by blast
  then have "cmod (fpoint_c (p_To pc) - fpoint_c (p_Pos pc)) \<le> of_nat k * p_Speed pc"
    using assms(2) by (simp add: divide_le_eq)
  then show ?thesis
    using heartbeat_arrives_within [OF assms] by blast
qed

theorem heartbeat_liveness_witness:
  "\<exists>n. p_State ((heartbeat_player ^^ n) (pc_osc\<lparr>p_Speed := 1\<rparr>)) = STAND
     \<and> p_Pos ((heartbeat_player ^^ n) (pc_osc\<lparr>p_Speed := 1\<rparr>)) = p_To pc_osc"
  using heartbeat_liveness [of "pc_osc\<lparr>p_Speed := 1\<rparr>"] by (simp add: pc_osc_def)

text \<open>
  C13: at a speed above 1 a moving player may never arrive.  The test compares the
  squared \<open>Distance\<close> with the unsquared speed, so a player at speed 10 four units
  from its target overshoots to six units beyond it, then back to its start, and
  moves forever.
\<close>

theorem oscillation_never_stands: "p_State ((heartbeat_player ^^ n) pc_osc) = MOVE"
proof -
  have "p_State (heartbeat_player pc_osc) = MOVE"
    by (simp add: pc_osc_def heartbeat_player_def Distance_def Let_def)
  then show ?thesis
    using oscillation_orbit [of n] by (auto simp: pc_osc_def)
qed

text \<open>
  C23: the body of the loop of \<open>HeartBeat\<close>, with its \<open>Atan2\<close>, \<open>Cos\<close> and
  \<open>Sin\<close>, computes the same position as the reference rule \<open>heartbeat_ref\<close>, and
  stops the player exactly when the squared distance is below its speed.
\<close>

theorem heartbeat_player_ref:
  assumes "p_State pc = MOVE"
  shows "fpoint_c (p_Pos (heartbeat_player pc))
           = heartbeat_ref (fpoint_c (p_Pos pc)) (fpoint_c (p_To pc)) (p_Speed pc)
       \<and> p_State (heartbeat_player pc) = (if Distance (p_Pos pc) (p_To pc) < p_Speed pc then STAND else MOVE)"
proof (cases "Distance (p_Pos pc) (p_To pc) < p_Speed pc")
  case True
  then show ?thesis
    using assms by (simp add: heartbeat_player_arrive heartbeat_ref_def Distance_norm norm_minus_commute)
next
  case False
  then have "\<not> (cmod (fpoint_c (p_To pc) - fpoint_c (p_Pos pc)))\<^sup>2 < p_Speed pc"
    by (simp add: Distance_norm norm_minus_commute)
  then show ?thesis
    using heartbeat_player_advance [OF assms False] False
    by (simp add: heartbeat_ref_def cis_Arg Arg_zero)
qed

theorem heartbeat_player_ref_witness:
  "fpoint_c (p_Pos (heartbeat_player pc_osc)) = heartbeat_ref (Complex 0 0) (Complex 4 0) 10
   \<and> p_State (heartbeat_player pc_osc) = MOVE"
  using heartbeat_player_ref [of pc_osc]
  by (simp add: pc_osc_def Distance_def fpoint_c_def)

subsection \<open>Interleavings of Login and HeartBeat\<close>

text \<open>
  C15: \<open>Login\<close> does not check that the player is new.  Logging the same player
  in twice breaks the invariant (its \<open>Id\<close> is its second index) and every
  \<open>HeartBeat\<close> then moves it twice.
\<close>

theorem Login_twice:
  assumes "m_players m = []" "h p = Some pl"
    and "Login m h p = Inr (m1, h1)" "Login m1 h1 p = Inr (m2, h2)"
  shows "\<not> scene_inv m2 h2
       \<and> HeartBeat m2 h2 = Inr (h2(p \<mapsto> heartbeat_player (heartbeat_player (the (h2 p)))))"
proof -
  obtain pl1 where m1: "m1 = m\<lparr>m_players := [p]\<rparr>"
    and h1: "h1 = h(p \<mapsto> pl1\<lparr>p_Id := 0, p_Scene := m_Title m\<rparr>)"
    using assms(3) assms(1) by (auto elim: Login_cases)
  obtain pl2 where m2: "m2 = m\<lparr>m_players := [p, p]\<rparr>"
    and h2: "h2 = h1(p \<mapsto> pl2\<lparr>p_Id := 1, p_Scene := m_Title m\<rparr>)"
    using assms(4) unfolding m1 by (auto elim: Login_cases)
  show ?thesis
    unfolding m2 h2 by (simp add: scene_inv_def HeartBeat_def)
qed

theorem Login_twice_witness:
  "\<not> scene_inv (m0\<lparr>m_players := [1, 1]\<rparr>) (Map.empty(1 \<mapsto> pl0\<lparr>p_Id := 1, p_Scene := ''town''\<rparr>))"
  using Login_twice [of m0 "Map.empty(1 \<mapsto> pl0)" 1 pl0 "m0\<lparr>m_players := [1]\<rparr>"
      "Map.empty(1 \<mapsto> pl0\<lparr>p_Id := 0, p_Scene := ''town''\<rparr>)" "m0\<lparr>m_players := [1, 1]\<rparr>"
      "Map.empty(1 \<mapsto> pl0\<lparr>p_Id := 1, p_Scene := ''town''\<rparr>)"]
  by (simp add: Login_def m0_def)

text \<open>
  C16: \<open>New\<close> drops its \<open>data.Map\<close> argument, so every player logged into a
  map made by \<open>New\<close> gets the empty scene name, whatever the title of the data.
\<close>

theorem New_Login_Scene:
  assumes "Login (New d) h p = Inr (m', h')"
  shows "\<exists>pl. h' p = Some pl \<and> p_Scene pl = ''''"
proof -
  obtain pl where "h' = h(p \<mapsto> pl\<lparr>p_Id := 0, p_Scene := ''''\<rparr>)"
    using assms by (auto simp: New_def elim: Login_cases)
  then show ?thesis by simp
qed

theorem New_Login_Scene_witness:
  "\<exists>pl. (Map.empty(1 \<mapsto> pl0\<lparr>p_Id := 0, p_Scene := ''''\<rparr>)) 1 = Some pl \<and> p_Scene pl = ''''"
  using New_Login_Scene [of "\<lparr>Title = ''town''\<rparr>" "Map.empty(1 \<mapsto> pl0)" 1 "New \<lparr>Title = ''town''\<rparr>\<lparr>m_players := [1]\<rparr>"
      "Map.empty(1 \<mapsto> pl0\<lparr>p_Id := 0, p_Scene := ''''\<rparr>)"]
  by (simp add: Login_def New_def)

end
