(* ===== verification/Agent.thy ===== *)
theory Agent
  imports Frame
begin

text \<open>
  \<^verbatim>\<open>src/player/agent.go\<close>: \<open>Player.Go\<close> makes two channels of capacity 1
  (\<open>read\<close> for decoded client values, \<open>write\<close> for outgoing packets) and runs
  three goroutines on the player's connection: a reader that decodes frames with
  \<open>packet.Read\<close> and sends their values on \<open>read\<close>, closing the connection and
  the channel at the first error; a writer that takes packets from \<open>write\<close> and
  encodes them with \<open>packet.Write\<close>, logging and dropping a packet it cannot write;
  and \<open>loop\<close>, which handles the values of \<open>read\<close> in order and returns once
  \<open>read\<close> is closed and empty.

  The three goroutines and their environment are one state (\<open>agent\<close>) and a step
  relation (\<open>agent_step\<close>), one rule per atomic action of the code: any
  interleaving of the goroutines is a sequence of steps.  The connection is the
  byte stream the peer sends (\<open>conn_in\<close>), what has been written to it
  (\<open>conn_out\<close>) and whether it is open.  A buffered channel is the list of the
  values in its buffer; a send blocks while the buffer holds one value.  The
  other cases of the \<open>select\<close> of \<open>loop\<close> (scene messages, AOI, heartbeat) run
  handlers outside the sources; they are one step that counts them.  The game
  logic that sends on \<open>player.send\<close> is the environment step \<open>env_send\<close>.
  \<open>log.Println\<close> appends to \<open>agent_log\<close>.
\<close>

section \<open>State\<close>

datatype reader_pc = RLoop | RSend val | RExited

datatype writer_pc = WLoop | WWrite packet

datatype main_pc = MLoop | MReturned

datatype log_entry = LRead error | LWrite error | LClosedConn

record agent =
  conn_in :: bytes
  conn_open :: bool
  conn_out :: bytes
  rd_chan :: "val list"
  rd_closed :: bool
  wr_chan :: "packet list"
  rpc :: reader_pc
  wpc :: writer_pc
  mpc :: main_pc
  handled :: "val list"
  env_events :: nat
  agent_log :: "log_entry list"

text \<open>\<open>Go()\<close> on a connection whose peer sends \<open>input\<close>: both channels empty,
  the three goroutines at the top of their loops.\<close>

definition Go :: "bytes \<Rightarrow> agent" where
  "Go input = \<lparr>conn_in = input, conn_open = True, conn_out = [], rd_chan = [], rd_closed = False,
     wr_chan = [], rpc = RLoop, wpc = WLoop, mpc = MLoop, handled = [], env_events = 0,
     agent_log = []\<rparr>"

text \<open>Capacity of both channels, \<open>make(chan ..., 1)\<close>.\<close>

abbreviation chan_cap :: nat where
  "chan_cap \<equiv> 1"

section \<open>Steps\<close>

inductive agent_step :: "registry \<Rightarrow> agent \<Rightarrow> agent \<Rightarrow> bool" for reg where
  reader_read:
    "rpc s = RLoop \<Longrightarrow> Read reg (conn_in s) = (Inr v, rest) \<Longrightarrow>
     agent_step reg s (s\<lparr>conn_in := rest, rpc := RSend v\<rparr>)"
| reader_fail:
    "rpc s = RLoop \<Longrightarrow> Read reg (conn_in s) = (Inl e, rest) \<Longrightarrow>
     agent_step reg s (s\<lparr>conn_in := rest, conn_open := False, rd_closed := True, rpc := RExited,
                         agent_log := agent_log s @ [LRead e]\<rparr>)"
| reader_send:
    "rpc s = RSend v \<Longrightarrow> length (rd_chan s) < chan_cap \<Longrightarrow>
     agent_step reg s (s\<lparr>rd_chan := rd_chan s @ [v], rpc := RLoop\<rparr>)"
| writer_recv:
    "wpc s = WLoop \<Longrightarrow> wr_chan s = pk # pks \<Longrightarrow>
     agent_step reg s (s\<lparr>wr_chan := pks, wpc := WWrite pk\<rparr>)"
| writer_write:
    "wpc s = WWrite pk \<Longrightarrow> conn_open s \<Longrightarrow> Write reg (pid pk) (obj pk) = Inr bs \<Longrightarrow>
     agent_step reg s (s\<lparr>conn_out := conn_out s @ bs, wpc := WLoop\<rparr>)"
| writer_error:
    "wpc s = WWrite pk \<Longrightarrow> Write reg (pid pk) (obj pk) = Inl e \<Longrightarrow>
     agent_step reg s (s\<lparr>wpc := WLoop, agent_log := agent_log s @ [LWrite e]\<rparr>)"
| writer_closed:
    "wpc s = WWrite pk \<Longrightarrow> \<not> conn_open s \<Longrightarrow> Write reg (pid pk) (obj pk) = Inr bs \<Longrightarrow>
     agent_step reg s (s\<lparr>wpc := WLoop, agent_log := agent_log s @ [LClosedConn]\<rparr>)"
| main_recv:
    "mpc s = MLoop \<Longrightarrow> rd_chan s = v # vs \<Longrightarrow>
     agent_step reg s (s\<lparr>rd_chan := vs, handled := handled s @ [v]\<rparr>)"
| main_closed:
    "mpc s = MLoop \<Longrightarrow> rd_chan s = [] \<Longrightarrow> rd_closed s \<Longrightarrow>
     agent_step reg s (s\<lparr>mpc := MReturned\<rparr>)"
| main_other:
    "mpc s = MLoop \<Longrightarrow> agent_step reg s (s\<lparr>env_events := Suc (env_events s)\<rparr>)"
| env_send:
    "length (wr_chan s) < chan_cap \<Longrightarrow> agent_step reg s (s\<lparr>wr_chan := wr_chan s @ [pk]\<rparr>)"

inductive reachable :: "registry \<Rightarrow> bytes \<Rightarrow> agent \<Rightarrow> bool" for reg input where
  start: "reachable reg input (Go input)"
| step: "reachable reg input s \<Longrightarrow> agent_step reg s s' \<Longrightarrow> reachable reg input s'"

inductive_cases agent_stepE: "agent_step reg s s'"

section \<open>The frames a stream holds\<close>

text \<open>
  \<open>read_all\<close>: the values the reader obtains from a stream, reading frames with
  \<open>packet.Read\<close> until the first error.  Each successful read consumes at least the
  5 bytes of a frame header, so \<open>length bs\<close> reads are enough (\<open>read_all_f_enough\<close>, \<open>read_all_unfold\<close>).
\<close>

fun read_all_f :: "registry \<Rightarrow> nat \<Rightarrow> bytes \<Rightarrow> val list" where
  "read_all_f reg 0 bs = []"
| "read_all_f reg (Suc n) bs =
     (case Read reg bs of (Inr v, rest) \<Rightarrow> v # read_all_f reg n rest | (Inl e, rest) \<Rightarrow> [])"

definition read_all :: "registry \<Rightarrow> bytes \<Rightarrow> val list" where
  "read_all reg bs = read_all_f reg (length bs) bs"

text \<open>
  \<open>read_frames\<close>: the same loop over the packets \<open>Decoder.Decode\<close> returns inside
  \<open>packet.Read\<close>, with the id of each frame that \<open>Read\<close> drops.
\<close>

fun read_frames_f :: "registry \<Rightarrow> nat \<Rightarrow> bytes \<Rightarrow> packet list" where
  "read_frames_f reg 0 bs = []"
| "read_frames_f reg (Suc n) bs =
     (case decode_packet reg bs of (Inr pk, rest) \<Rightarrow> pk # read_frames_f reg n rest | (Inl e, rest) \<Rightarrow> [])"

definition read_frames :: "registry \<Rightarrow> bytes \<Rightarrow> packet list" where
  "read_frames reg bs = read_frames_f reg (length bs) bs"

text \<open>The log entries the writer makes (every entry but those of the reader).\<close>

definition writer_entry :: "log_entry \<Rightarrow> bool" where
  "writer_entry x = (case x of LRead e \<Rightarrow> False | _ \<Rightarrow> True)"

section \<open>The invariant of the goroutines\<close>

text \<open>The value the reader holds while it blocks on \<open>read <- data\<close>.\<close>

definition pending :: "agent \<Rightarrow> val list" where
  "pending s = (case rpc s of RSend v \<Rightarrow> [v] | _ \<Rightarrow> [])"

text \<open>The values the reader will still read from the connection.\<close>

definition upcoming :: "registry \<Rightarrow> agent \<Rightarrow> val list" where
  "upcoming reg s = (if rpc s = RExited then [] else read_all reg (conn_in s))"

definition agent_inv :: "registry \<Rightarrow> bytes \<Rightarrow> agent \<Rightarrow> bool" where
  "agent_inv reg input s =
     (handled s @ rd_chan s @ pending s @ upcoming reg s = read_all reg input
      \<and> length (rd_chan s) \<le> chan_cap \<and> length (wr_chan s) \<le> chan_cap
      \<and> (rd_closed s \<longleftrightarrow> rpc s = RExited) \<and> (conn_open s \<longleftrightarrow> rpc s \<noteq> RExited)
      \<and> (mpc s = MReturned \<longrightarrow> rd_chan s = [] \<and> rd_closed s))"

text \<open>The state after a peer that sends nothing: the reader fails at once, and
  \<open>loop\<close> returns.\<close>

definition s_done :: agent where
  "s_done = (Go [])\<lparr>conn_open := False, rd_closed := True, rpc := RExited,
     agent_log := [LRead Truncated], mpc := MReturned\<rparr>"

text \<open>
  The abstract contract of the goroutines: a pipe that delivers the frames of the
  input one at a time, in order.  Its state is the pair of the values delivered
  and the values still to come; \<open>pipe_abs\<close> reads it off an agent state.
\<close>

definition pipe_step :: "val list \<times> val list \<Rightarrow> val list \<times> val list \<Rightarrow> bool" where
  "pipe_step a a' = (case snd a of [] \<Rightarrow> False | v # r \<Rightarrow> a' = (fst a @ [v], r))"

definition pipe_abs :: "registry \<Rightarrow> bytes \<Rightarrow> agent \<Rightarrow> val list \<times> val list" where
  "pipe_abs reg input s = (handled s, drop (length (handled s)) (read_all reg input))"

section \<open>Lemmas\<close>

lemma read_frame_Inr_shorter:
  "read_frame bs = (Inr x, rest) \<Longrightarrow> length rest + 5 \<le> length bs"
  by (auto simp: read_frame_def Let_def split: if_splits)

lemma decode_packet_Inr_shorter:
  "decode_packet reg bs = (Inr pk, rest) \<Longrightarrow> length rest + 5 \<le> length bs"
  by (auto simp: decode_packet_def dest: read_frame_Inr_shorter
      split: prod.splits sum.splits)

lemma Read_Inr_shorter:
  "Read reg bs = (Inr v, rest) \<Longrightarrow> length rest + 5 \<le> length bs"
  by (auto simp: Read_def dest: decode_packet_Inr_shorter split: prod.splits sum.splits)

lemma read_all_f_enough:
  "length bs \<le> n \<Longrightarrow> length bs \<le> m \<Longrightarrow> read_all_f reg n bs = read_all_f reg m bs"
proof (induction n arbitrary: m bs)
  case 0
  then have "bs = []" by simp
  then show ?case
    by (cases m) (simp_all add: Read_def decode_packet_def read_frame_def)
next
  case (Suc n)
  then show ?case
  proof (cases m)
    case 0
    with Suc.prems have "bs = []" by simp
    then show ?thesis
      using 0 by (simp add: Read_def decode_packet_def read_frame_def)
  next
    case (Suc m')
    show ?thesis
    proof (cases "Read reg bs")
      case (Pair r rest)
      show ?thesis
      proof (cases r)
        case (Inl e) then show ?thesis using Pair Suc by simp
      next
        case (Inr v)
        then have "length rest + 5 \<le> length bs" using Pair Read_Inr_shorter by blast
        then have "read_all_f reg n rest = read_all_f reg m' rest"
          using Suc.prems Suc by (intro Suc.IH) simp_all
        then show ?thesis using Pair Inr Suc by simp
      qed
    qed
  qed
qed

lemma read_all_unfold:
  "read_all reg bs = (case Read reg bs of (Inr v, rest) \<Rightarrow> v # read_all reg rest | (Inl e, rest) \<Rightarrow> [])"
proof (cases "Read reg bs")
  case (Pair r rest)
  show ?thesis
  proof (cases r)
    case (Inl e)
    then show ?thesis using Pair
      by (cases bs) (simp_all add: read_all_def Read_def decode_packet_def read_frame_def)
  next
    case (Inr v)
    then have l: "length rest + 5 \<le> length bs" using Pair Read_Inr_shorter by blast
    then obtain k where "length bs = Suc k" by (cases "length bs") auto
    moreover have "read_all_f reg k rest = read_all_f reg (length rest) rest"
      using l calculation by (intro read_all_f_enough) simp_all
    ultimately show ?thesis using Pair Inr by (simp add: read_all_def)
  qed
qed


lemma agent_inv_Go: "agent_inv reg input (Go input)"
  by (simp add: agent_inv_def Go_def pending_def upcoming_def)

lemma agent_step_inv:
  assumes "agent_step reg s s'" "agent_inv reg input s"
  shows "agent_inv reg input s'"
  using assms
proof (induction rule: agent_step.induct)
  case (reader_read s v rest)
  then show ?case
    by (auto simp: agent_inv_def pending_def upcoming_def read_all_unfold [of reg "conn_in s"])
next
  case (reader_fail s e rest)
  then show ?case
    by (auto simp: agent_inv_def pending_def upcoming_def read_all_unfold [of reg "conn_in s"])
qed (auto simp: agent_inv_def pending_def upcoming_def)

lemma reachable_inv: "reachable reg input s \<Longrightarrow> agent_inv reg input s"
  by (induction rule: reachable.induct) (auto intro: agent_inv_Go agent_step_inv)


lemma reachable_steps: "(agent_step reg)\<^sup>*\<^sup>* (Go input) s \<Longrightarrow> reachable reg input s"
  by (induction rule: rtranclp_induct) (auto intro: reachable.intros)

lemma run_to_return:
  assumes "rpc s = RLoop" "rd_chan s = []" "mpc s = MLoop"
  shows "\<exists>s'. (agent_step reg)\<^sup>*\<^sup>* s s' \<and> mpc s' = MReturned
            \<and> handled s' = handled s @ read_all reg (conn_in s)"
  using assms
proof (induction "length (conn_in s)" arbitrary: s rule: less_induct)
  case less
  show ?case
  proof (cases "Read reg (conn_in s)")
    case (Pair r rest)
    show ?thesis
    proof (cases r)
      case (Inl e)
      let ?s1 = "s\<lparr>conn_in := rest, conn_open := False, rd_closed := True, rpc := RExited,
                   agent_log := agent_log s @ [LRead e]\<rparr>"
      have "agent_step reg s ?s1"
        using less.prems Pair Inl by (intro agent_step.reader_fail) simp_all
      moreover have "agent_step reg ?s1 (?s1\<lparr>mpc := MReturned\<rparr>)"
        using less.prems by (intro agent_step.main_closed) simp_all
      ultimately show ?thesis
        using Pair Inl
        by (intro exI [of _ "?s1\<lparr>mpc := MReturned\<rparr>"])
           (simp add: read_all_unfold [of reg "conn_in s"])
    next
      case (Inr v)
      let ?s1 = "s\<lparr>conn_in := rest, rpc := RSend v\<rparr>"
      let ?s2 = "?s1\<lparr>rd_chan := [v], rpc := RLoop\<rparr>"
      let ?s3 = "?s2\<lparr>rd_chan := [], handled := handled s @ [v]\<rparr>"
      have "agent_step reg s ?s1"
        using less.prems Pair Inr by (intro agent_step.reader_read) simp_all
      moreover have "agent_step reg ?s1 ?s2"
        using less.prems agent_step.reader_send [of ?s1 v reg] by simp
      moreover have "agent_step reg ?s2 ?s3"
        using less.prems agent_step.main_recv [of ?s2 v "[]" reg] by simp
      moreover have "length rest < length (conn_in s)"
        using Pair Inr Read_Inr_shorter by fastforce
      then obtain s' where "(agent_step reg)\<^sup>*\<^sup>* ?s3 s'" "mpc s' = MReturned"
          "handled s' = handled ?s3 @ read_all reg rest"
        using less.prems less.hyps [of ?s3] by auto
      ultimately show ?thesis
        using Pair Inr
        by (intro exI [of _ s']) (auto simp: read_all_unfold [of reg "conn_in s"]
            intro: converse_rtranclp_into_rtranclp)
    qed
  qed
qed

text \<open>Once the reader has exited, the connection stays closed, nothing is written
  to it, and only the writer adds to the log.\<close>

lemma exited_step:
  "agent_step reg s s' \<Longrightarrow> rpc s = RExited \<Longrightarrow> \<not> conn_open s \<Longrightarrow>
   rpc s' = RExited \<and> \<not> conn_open s' \<and> conn_out s' = conn_out s
   \<and> (\<exists>es. agent_log s' = agent_log s @ es \<and> list_all writer_entry es)"
  by (induction rule: agent_step.induct) (auto simp: writer_entry_def)

lemma exited_steps:
  "(agent_step reg)\<^sup>*\<^sup>* s s' \<Longrightarrow> rpc s = RExited \<Longrightarrow> \<not> conn_open s \<Longrightarrow>
   rpc s' = RExited \<and> \<not> conn_open s' \<and> conn_out s' = conn_out s
   \<and> (\<exists>es. agent_log s' = agent_log s @ es \<and> list_all writer_entry es)"
proof (induction rule: rtranclp_induct)
  case base then show ?case by (intro conjI exI [of _ "[]"]) simp_all
next
  case (step y z)
  then obtain es where "agent_log y = agent_log s @ es" "list_all writer_entry es"
    "rpc y = RExited" "\<not> conn_open y" "conn_out y = conn_out s" by blast
  moreover from exited_step [OF step(2)] calculation(3,4) obtain es' where
    "rpc z = RExited" "\<not> conn_open z" "conn_out z = conn_out y"
    "agent_log z = agent_log y @ es'" "list_all writer_entry es'" by blast
  ultimately show ?case by (intro conjI exI [of _ "es @ es'"]) simp_all
qed

lemma reachable_s_done: "reachable Map.empty [] s_done"
proof -
  let ?s1 = "(Go [])\<lparr>conn_in := [], conn_open := False, rd_closed := True, rpc := RExited,
               agent_log := [LRead Truncated]\<rparr>"
  have "Read Map.empty [] = (Inl Truncated, [])"
    by (simp add: Read_def decode_packet_def read_frame_def)
  then have "agent_step Map.empty (Go []) ?s1"
    using agent_step.reader_fail [of "Go []" Map.empty Truncated "[]"] by (simp add: Go_def)
  moreover have "agent_step Map.empty ?s1 s_done"
    using agent_step.main_closed [of ?s1 Map.empty] by (simp add: Go_def s_done_def)
  ultimately show ?thesis
    by (rule reachable.step [OF reachable.step [OF reachable.start]])
qed

text \<open>A stream of frames written for registered values reads back as those values.\<close>

lemma agent_step_handled:
  "agent_step reg s s' \<Longrightarrow> handled s' = handled s \<or> (\<exists>v. rd_chan s = v # rd_chan s' \<and> handled s' = handled s @ [v])"
  by (induction rule: agent_step.induct) auto

lemma Write_exact:
  assumes "reg p = Some sh" "exact sh v" "wf_value v"
  shows "Write reg p v = Inr (write_frame p (encode_value v))"
  using assms by (simp add: Write_def encode_packet_exact)

lemma read_all_Nil [simp]: "read_all reg [] = []"
  by (simp add: read_all_def)

lemma read_all_frames_append:
  assumes "\<forall>(p, v) \<in> set xs. \<exists>sh. reg p = Some sh \<and> exact sh v \<and> wf_value v \<and> wf_shape sh
                              \<and> Suc (length (encode_value v)) < 2 ^ 32"
  shows "read_all reg (concat (map (\<lambda>(p, v). write_frame p (encode_value v)) xs) @ tail)
           = map snd xs @ read_all reg tail"
  using assms
proof (induction xs)
  case Nil
  then show ?case by simp
next
  case (Cons x xs)
  obtain p v where x: "x = (p, v)" by (cases x)
  then obtain sh where "reg p = Some sh" "exact sh v" "wf_value v" "wf_shape sh"
      "Suc (length (encode_value v)) < 2 ^ 32"
    using Cons.prems by auto
  then have "Read reg (write_frame p (encode_value v) @ concat (map (\<lambda>(p, v). write_frame p (encode_value v)) xs) @ tail)
      = (Inr v, concat (map (\<lambda>(p, v). write_frame p (encode_value v)) xs) @ tail)"
    by (simp add: Read_def decode_packet_roundtrip)
  then show ?case
    using Cons x by (simp add: read_all_unfold [of reg "write_frame p (encode_value v) @ _"])
qed

lemma read_all_truncated_frame:
  assumes "Suc (length payload) < 2 ^ 32" "k < length (write_frame p payload)"
  shows "read_all reg (take k (write_frame p payload)) = []"
  using read_frame_truncated [OF assms]
  by (simp add: read_all_unfold [of reg "take k (write_frame p payload)"] Read_def decode_packet_def)

lemma read_all_unknown_id:
  assumes "reg p = None" "Suc (length payload) < 2 ^ 32"
  shows "read_all reg (write_frame p payload @ rest) = []"
  using decode_packet_unknown [where reg = reg and p = p and payload = payload and rest = rest, OF assms]
  by (simp add: read_all_unfold [of reg "write_frame p payload @ rest"] Read_def)

lemma read_all_f_frames: "read_all_f reg n bs = map obj (read_frames_f reg n bs)"
  by (induction n arbitrary: bs) (auto simp: Read_def split: prod.splits sum.splits)

lemma read_all_frames_obj: "read_all reg bs = map obj (read_frames reg bs)"
  by (simp add: read_all_def read_frames_def read_all_f_frames)

lemma decode_packet_typed:
  "decode_packet reg bs = (Inr pk, rest) \<Longrightarrow> \<exists>sh. reg (pid pk) = Some sh \<and> conforms sh (obj pk)"
  by (auto simp: decode_packet_def lookup_def conforms_def
      split: prod.splits sum.splits option.splits dest: bind_conforms(1))

lemma read_frames_f_typed:
  "pk \<in> set (read_frames_f reg n bs) \<Longrightarrow> \<exists>sh. reg (pid pk) = Some sh \<and> conforms sh (obj pk)"
proof (induction n arbitrary: bs)
  case 0 then show ?case by simp
next
  case (Suc n)
  then show ?case
    by (auto split: prod.splits sum.splits dest: decode_packet_typed decode_packet_typed [OF sym])
qed

lemma returned_handled:
  "reachable reg input s \<Longrightarrow> mpc s = MReturned \<Longrightarrow> handled s = read_all reg input"
  using reachable_inv by (fastforce simp: agent_inv_def pending_def upcoming_def)

lemma returned_run:
  "\<exists>s. reachable reg input s \<and> mpc s = MReturned"
proof -
  have "rpc (Go input) = RLoop" "rd_chan (Go input) = []" "mpc (Go input) = MLoop"
    by (simp_all add: Go_def)
  from run_to_return [OF this, of reg] obtain s where
    "(agent_step reg)\<^sup>*\<^sup>* (Go input) s" "mpc s = MReturned" by blast
  then show ?thesis by (blast intro: reachable_steps)
qed

section \<open>Properties\<close>

text \<open>
  C18: in every reachable state the values are in stream order: those \<open>loop\<close>
  has handled, then those in the \<open>read\<close> channel, then the one the reader is
  sending, then those still in the connection make up exactly the frames of the
  input.  Nothing is lost, duplicated or reordered between the goroutines.
\<close>

theorem agent_order:
  assumes "reachable reg input s"
  shows "handled s @ rd_chan s @ pending s @ upcoming reg s = read_all reg input"
  using reachable_inv [OF assms] by (simp add: agent_inv_def)

theorem agent_order_witness:
  "handled s_done @ rd_chan s_done @ pending s_done @ upcoming Map.empty s_done = read_all Map.empty []"
  by (rule agent_order [OF reachable_s_done])

text \<open>
  C19: \<open>loop\<close> returns only after the reader has stopped and every value it read
  has been handled, in the order of the stream.
\<close>

theorem loop_returns_after_all:
  assumes "reachable reg input s" "mpc s = MReturned"
  shows "handled s = read_all reg input \<and> rpc s = RExited \<and> \<not> conn_open s"
  using reachable_inv [OF assms(1)] assms(2) by (auto simp: agent_inv_def pending_def upcoming_def)

theorem loop_returns_after_all_witness:
  "handled s_done = read_all Map.empty [] \<and> rpc s_done = RExited \<and> \<not> conn_open s_done"
  by (rule loop_returns_after_all [OF reachable_s_done]) (simp add: s_done_def)

text \<open>
  C20: whatever the input, there is a run of the goroutines from \<open>Go\<close> in which
  \<open>loop\<close> returns, having handled every frame of the input in order: the reader
  always reaches the end of the stream or an error, and then closes \<open>read\<close>.
\<close>

theorem Go_can_return:
  "\<exists>s. (agent_step reg)\<^sup>*\<^sup>* (Go input) s \<and> mpc s = MReturned \<and> handled s = read_all reg input"
  using run_to_return [of "Go input" reg] by (simp add: Go_def)

text \<open>
  C21: once the reader has exited, it has closed the connection: from then on, in
  every run, the connection stays closed, no byte is written to it, and the log
  grows only by the writer's entries (\<open>packet.Write\<close> errors and writes to the
  closed connection): packets sent on \<open>player.send\<close> are dropped and logged.
\<close>

theorem closed_conn_silent:
  assumes "reachable reg input s" "rpc s = RExited" "(agent_step reg)\<^sup>*\<^sup>* s s'"
  shows "\<not> conn_open s' \<and> conn_out s' = conn_out s
       \<and> (\<exists>es. agent_log s' = agent_log s @ es \<and> list_all writer_entry es)"
proof -
  have "\<not> conn_open s"
    using reachable_inv [OF assms(1)] assms(2) by (simp add: agent_inv_def)
  then show ?thesis
    using exited_steps [OF assms(3,2)] by blast
qed

theorem closed_conn_silent_witness:
  "\<not> conn_open (s_done\<lparr>wr_chan := [], wpc := WLoop, agent_log := agent_log s_done @ [LClosedConn]\<rparr>)
   \<and> conn_out (s_done\<lparr>wr_chan := [], wpc := WLoop, agent_log := agent_log s_done @ [LClosedConn]\<rparr>)
     = conn_out s_done"
proof -
  let ?pk = "\<lparr>pid = 1, obj = VNil\<rparr>"
  let ?s1 = "s_done\<lparr>wr_chan := [?pk]\<rparr>"
  let ?s2 = "?s1\<lparr>wr_chan := [], wpc := WWrite ?pk\<rparr>"
  have 1: "agent_step Map.empty s_done ?s1"
    using agent_step.env_send [of s_done Map.empty ?pk] by (simp add: s_done_def Go_def)
  have 2: "agent_step Map.empty ?s1 ?s2"
    using agent_step.writer_recv [of ?s1 ?pk "[]" Map.empty] by (simp add: s_done_def Go_def)
  have "Write Map.empty 1 VNil = Inr (write_frame 1 (encode_value VNil))"
    by (simp add: Write_def encode_packet_def)
  then have 3: "agent_step Map.empty ?s2
      (s_done\<lparr>wr_chan := [], wpc := WLoop, agent_log := agent_log s_done @ [LClosedConn]\<rparr>)"
    using agent_step.writer_closed [of ?s2 ?pk Map.empty] by (simp add: s_done_def Go_def)
  have "(agent_step Map.empty)\<^sup>*\<^sup>* s_done
      (s_done\<lparr>wr_chan := [], wpc := WLoop, agent_log := agent_log s_done @ [LClosedConn]\<rparr>)"
    using 1 2 3 by (meson rtranclp.rtrancl_into_rtrancl rtranclp.rtrancl_refl)
  moreover have "rpc s_done = RExited" by (simp add: s_done_def)
  ultimately show ?thesis
    using closed_conn_silent [OF reachable_s_done] by blast
qed

text \<open>
  C24: the goroutines refine the pipe: every step of a reachable state either
  leaves the abstract state alone or delivers the next frame of the input.
\<close>

theorem agent_refines_pipe:
  assumes "reachable reg input s" "agent_step reg s s'"
  shows "pipe_abs reg input s' = pipe_abs reg input s \<or> pipe_step (pipe_abs reg input s) (pipe_abs reg input s')"
proof -
  have i: "handled s @ rd_chan s @ pending s @ upcoming reg s = read_all reg input"
    using reachable_inv [OF assms(1)] by (simp add: agent_inv_def)
  show ?thesis
    using agent_step_handled [OF assms(2)]
  proof
    assume "handled s' = handled s" then show ?thesis by (simp add: pipe_abs_def)
  next
    assume "\<exists>v. rd_chan s = v # rd_chan s' \<and> handled s' = handled s @ [v]"
    then obtain v where v: "rd_chan s = v # rd_chan s'" "handled s' = handled s @ [v]" by blast
    have "drop (length (handled s)) (read_all reg input) = v # drop (length (handled s')) (read_all reg input)"
      using i v by (auto simp flip: i)
    then show ?thesis using v by (simp add: pipe_abs_def pipe_step_def)
  qed
qed

theorem agent_refines_pipe_witness:
  "pipe_abs Map.empty [] (s_done\<lparr>wr_chan := [\<lparr>pid = 1, obj = VNil\<rparr>]\<rparr>) = pipe_abs Map.empty [] s_done
   \<or> pipe_step (pipe_abs Map.empty [] s_done)
       (pipe_abs Map.empty [] (s_done\<lparr>wr_chan := [\<lparr>pid = 1, obj = VNil\<rparr>]\<rparr>))"
proof -
  have "agent_step Map.empty s_done (s_done\<lparr>wr_chan := wr_chan s_done @ [\<lparr>pid = 1, obj = VNil\<rparr>]\<rparr>)"
    by (rule agent_step.env_send) (simp add: s_done_def Go_def)
  then have "agent_step Map.empty s_done (s_done\<lparr>wr_chan := [\<lparr>pid = 1, obj = VNil\<rparr>]\<rparr>)"
    by (simp add: s_done_def Go_def)
  then show ?thesis
    by (rule agent_refines_pipe [OF reachable_s_done])
qed

text \<open>
  C25: type soundness of what the player's loop sees: the \<open>i\<close>-th value it has
  handled is the value of the \<open>i\<close>-th frame of the input, and it has the shape the
  registry gives that frame's id.
\<close>

theorem handled_typed:
  assumes "reachable reg input s" "i < length (handled s)"
  shows "obj (read_frames reg input ! i) = handled s ! i
       \<and> (\<exists>sh. reg (pid (read_frames reg input ! i)) = Some sh \<and> conforms sh (handled s ! i))"
proof -
  have "handled s @ rd_chan s @ pending s @ upcoming reg s = map obj (read_frames reg input)"
    using reachable_inv [OF assms(1)] by (simp add: agent_inv_def read_all_frames_obj)
  then have l: "i < length (read_frames reg input)"
    and e: "obj (read_frames reg input ! i) = handled s ! i"
    using assms(2) by (metis length_map nth_map nth_append length_append trans_less_add1)+
  moreover have "read_frames reg input ! i \<in> set (read_frames_f reg (length input) input)"
    using l by (simp add: read_frames_def)
  ultimately show ?thesis
    using read_frames_f_typed by metis
qed

theorem handled_typed_witness:
  "\<exists>s. reachable (Map.empty(1 \<mapsto> SAny)) (write_frame 1 [192]) s \<and> handled s = [VNil]
       \<and> (\<exists>sh. (Map.empty(1 \<mapsto> SAny)) (pid (read_frames (Map.empty(1 \<mapsto> SAny)) (write_frame 1 [192]) ! 0))
              = Some sh \<and> conforms sh VNil)"
proof -
  obtain s where s: "reachable (Map.empty(1 \<mapsto> SAny)) (write_frame 1 [192]) s" "mpc s = MReturned"
    using returned_run by blast
  have "read_all (Map.empty(1 \<mapsto> SAny)) (concat (map (\<lambda>(p, v). write_frame p (encode_value v)) [(1, VNil)]) @ [])
        = map snd [(1 :: byte, VNil)] @ read_all (Map.empty(1 \<mapsto> SAny)) []"
    by (rule read_all_frames_append) (simp add: exact_def)
  then have h: "handled s = [VNil]"
    using returned_handled [OF s] by simp
  then have "0 < length (handled s)" by simp
  from handled_typed [OF s(1) this] h
  have "\<exists>sh. (Map.empty(1 \<mapsto> SAny)) (pid (read_frames (Map.empty(1 \<mapsto> SAny)) (write_frame 1 [192]) ! 0))
              = Some sh \<and> conforms sh VNil"
    by simp
  then show ?thesis using s(1) h by blast
qed

end
