(* ===== verification/Spec2Isabelle.thy ===== *)
theory Spec2Isabelle
  imports PacketTest Scene Agent
begin

text \<open>
  A verification development of the ouster game server (Go, \<^verbatim>\<open>src/\<close>).

  \<^bold>\<open>The program.\<close>  A player's client talks to the server over a connection that
  carries frames \<open>LEN(4) | ID | PAYLOAD\<close>, the payload a MessagePack-style value
  whose shape the packet id selects in a registry (package \<open>packet\<close>).  For each
  player, \<^verbatim>\<open>src/player/agent.go\<close> (\<open>Player.Go\<close>) runs a reader goroutine that
  decodes frames with \<open>packet.Read\<close>, a writer goroutine that encodes outgoing
  packets with \<open>packet.Write\<close>, and the player's \<open>loop\<close>, linked by two channels
  of capacity 1.  The player lives in a scene map (\<^verbatim>\<open>src/scene/map.go\<close>): \<open>Login\<close>
  adds it and gives it its index as \<open>Id\<close>, \<open>Player\<close> looks it up by \<open>Id\<close>, and
  \<open>HeartBeat\<close> moves every moving player towards its target, measuring with
  \<open>ouster.Distance\<close> from \<^verbatim>\<open>src/utils.go\<close>, which also holds the error type.

  \<^bold>\<open>The theories.\<close>
  \<^item> \<open>Prelude\<close>: bytes as \<open>8 word\<close>, big-endian fields (\<open>be_bytes\<close>, \<open>be_val\<close>),
    characters as bytes, the error monad over lists (\<open>mapM\<close>).
  \<^item> \<open>MsgPack\<close>: the value type \<open>val\<close> and the tag table of the value encoding
    (\<open>encode_value\<close>; \<open>decode_value\<close> with depth fuel); the source of the
    \<open>packet\<close> package is not among the sources, so these follow the specification.
  \<^item> \<open>Registry\<close>: \<open>PacketMap\<close> as a partial map from ids to shapes, conformance
    (\<open>conforms\<close>, \<open>exact\<close>) and binding of a decoded value to a shape (\<open>bind\<close>).
  \<^item> \<open>Frame\<close>: the frame codec, \<open>Encoder.Encode\<close>/\<open>Decoder.Decode\<close> as
    \<open>encode_packet\<close>/\<open>decode_packet\<close>, and \<open>packet.Read\<close>/\<open>packet.Write\<close>.
  \<^item> \<open>PacketTest\<close>: the tests of \<^verbatim>\<open>src/packet/packet_test.go\<close>, one definition
    per test, with the loops over cases as recursive functions.
  \<^item> \<open>Utils\<close>: \<^verbatim>\<open>src/utils.go\<close>: \<open>Rect\<close>, \<open>Point\<close>, \<open>FPoint\<close>, \<open>Distance\<close>,
    \<open>Error\<close>, \<open>Error_msg\<close> (the method \<open>Error()\<close>, with \<open>strconv.Itoa\<close> as \<open>itoa\<close>)
    and \<open>NewError\<close>.
  \<^item> \<open>Scene\<close>: \<^verbatim>\<open>src/scene/map.go\<close>: the players are pointers into an explicit
    store \<open>heap\<close>, since \<open>Login\<close> and \<open>HeartBeat\<close> write through them;
    \<open>New\<close>, \<open>get_player\<close> (\<open>Player\<close>), \<open>heartbeat_player\<close> and
    \<open>heartbeat_loop\<close>/\<open>HeartBeat\<close>, \<open>Login\<close>; a nil dereference is the error
    \<open>NilDeref\<close>.
  \<^item> \<open>Agent\<close>: \<^verbatim>\<open>src/player/agent.go\<close>: the three goroutines of \<open>Go\<close> as one state
    and an inductive step relation \<open>agent_step\<close>, one rule per atomic action, so
    that every interleaving is a run; \<open>reachable\<close> are the states of the runs
    from \<open>Go input\<close>.

  \<^bold>\<open>What is proved.\<close>  The codec: encode/decode round trips for values, frames and
  packets, consumption and fuel adequacy of the decoder, and the tests of
  \<open>packet_test.go\<close> pass for all registries and inputs they are meant for (C1, C3,
  C4), and \<open>TestType\<close> passes exactly when no registered type is \<open>interface{}\<close>
  (C2).  \<open>Utils\<close>: \<open>NewError\<close> keeps its text and the line of its message reads back (C5); \<open>Distance\<close> is the
  squared distance (C6).  \<open>Scene\<close>: \<open>Login\<close> appends the player, sets exactly its \<open>Id\<close> and
  \<open>Scene\<close>, and keeps the invariant \<open>scene_inv\<close> (C7); \<open>Player\<close> finds a player by its \<open>Id\<close> (C8) and never reads out of range
  (C9); \<open>HeartBeat\<close> keeps the invariant and does not panic on it (C10), panics on a
  nil player (C17); one step moves a player by its speed towards its target (C11);
  a speed in \<open>(0, 1]\<close> arrives (C12) while speed 10 can oscillate forever (C13);
  the trigonometric step equals a reference rule in complex numbers (C23);
  \<open>Id\<close> wraps at \<open>2^32\<close> (C14); a double \<open>Login\<close> breaks the invariant (C15);
  \<open>New\<close> drops its title (C16).  \<open>Agent\<close>: the order of values across the
  goroutines (C18), \<open>loop\<close> returns only after all values were handled (C19)
  and can always return (C20), after the reader exits the connection is closed and
  written no more, and only the writer logs (C21), the goroutines refine an abstract
  pipe that delivers the input's frames one by one (C24), and the \<open>i\<close>-th value
  \<open>loop\<close> handles is the \<open>i\<close>-th frame's value, with the shape registered for
  that frame's id (C25).  Across
  components: what a client writes with \<open>packet.Write\<close> is what the player's
  \<open>loop\<close> handles, in order (C22, below); a frame cut off by the end of the
  stream yields nothing (C26); a frame with an unregistered id ends the session and
  loses every frame after it (C27).

  \<^bold>\<open>Bounds and fuel.\<close>  \<open>decode\<close> runs \<open>decode_value\<close> with fuel
  \<open>Suc (length bs)\<close>: every level of nesting consumes at least one byte, and
  \<open>decode_fuel_adequate\<close>/\<open>dec_fuel_le_length\<close> show this fuel never runs out
  before the input.  \<open>read_all\<close> reads at most \<open>length bs\<close> frames, each
  successful read consuming at least 5 bytes (\<open>read_all_f_enough\<close>).  Packet ids are \<open>8 word\<close>,
  frame lengths are written truncated to 32 bits, player ids are \<open>32 word\<close> with
  the wrap of \<open>uint32(len(...))\<close>.

  \<^bold>\<open>Not modelled.\<close>  Go's \<open>float32\<close> arithmetic is modelled as real arithmetic
  (no rounding), and \<open>math.Atan2\<close>, \<open>math.Cos\<close>, \<open>math.Sin\<close> as their exact
  counterparts.  The \<open>player\<close> package beyond the fields that \<open>map.go\<close> uses, its
  message handlers (\<open>handleClientMessage\<close>, \<open>handleSceneMessage\<close>,
  \<open>heartBeat\<close>), the AOI, \<open>data.Map\<close> beyond its title, the scene's channels and
  timer, and the process wiring are not among the sources and are not modelled:
  the other cases of the player's \<open>select\<close> are one counting step.  \<open>log\<close>
  output is a list of entries.  A panic (\<open>NilDeref\<close>) ends the program: the
  state left behind by the writes made before it (the players already moved by
  \<open>HeartBeat\<close>, the nil pointer \<open>Login\<close> appends before it panics) is not
  modelled, as it is only observable if the panic is recovered, which no code
  here does.  Timing (\<open>time.Tick\<close>) and blocking I/O are
  abstracted: the peer's bytes are one finite stream.
\<close>

section \<open>Across components\<close>

text \<open>The byte stream of a client that writes the packets \<open>xs\<close> in order.\<close>

definition client_stream :: "(byte \<times> val) list \<Rightarrow> bytes" where
  "client_stream xs = concat (map (\<lambda>(p, v). write_frame p (encode_value v)) xs)"

text \<open>
  C22: if a client writes the registered values \<open>xs\<close> in order (each one
  accepted by \<open>packet.Write\<close>, which writes its frame), then in every run of the
  player's goroutines in which \<open>loop\<close> returns, \<open>loop\<close> has handled exactly
  those values, in that order.
\<close>

theorem client_values_handled:
  assumes "\<forall>(p, v) \<in> set xs. \<exists>sh. reg p = Some sh \<and> exact sh v \<and> wf_value v \<and> wf_shape sh
                              \<and> Suc (length (encode_value v)) < 2 ^ 32"
    and "reachable reg (client_stream xs) s" "mpc s = MReturned"
  shows "handled s = map snd xs \<and> (\<forall>(p, v) \<in> set xs. Write reg p v = Inr (write_frame p (encode_value v)))"
proof
  show "handled s = map snd xs"
    using returned_handled [OF assms(2,3)] read_all_frames_append [OF assms(1), of "[]"]
    by (simp add: client_stream_def)
  show "\<forall>(p, v) \<in> set xs. Write reg p v = Inr (write_frame p (encode_value v))"
    using assms(1) Write_exact by fast
qed

theorem client_values_handled_witness:
  "\<exists>s. reachable (Map.empty(1 \<mapsto> SAny)) (client_stream [(1, VNil)]) s \<and> mpc s = MReturned
       \<and> handled s = [VNil]"
proof -
  obtain s where r: "reachable (Map.empty(1 \<mapsto> SAny)) (client_stream [(1, VNil)]) s"
      and s: "mpc s = MReturned"
    using returned_run by blast
  have "handled s = map snd [(1 :: byte, VNil)]"
    using client_values_handled [OF _ r s] by (simp add: exact_def)
  then show ?thesis using r s by auto
qed

text \<open>
  C26: a frame cut off by the end of the stream never yields a value: when the
  peer's bytes end inside a frame, \<open>loop\<close> has handled exactly the complete
  frames before it, and then returns.
\<close>

theorem truncated_tail_dropped:
  assumes "\<forall>(p, v) \<in> set xs. \<exists>sh. reg p = Some sh \<and> exact sh v \<and> wf_value v \<and> wf_shape sh
                              \<and> Suc (length (encode_value v)) < 2 ^ 32"
    and "Suc (length payload) < 2 ^ 32" "k < length (write_frame p payload)"
    and "reachable reg (client_stream xs @ take k (write_frame p payload)) s" "mpc s = MReturned"
  shows "handled s = map snd xs"
  using returned_handled [OF assms(4,5)] read_all_frames_append [OF assms(1)]
    read_all_truncated_frame [OF assms(2,3)]
  by (simp add: client_stream_def)

theorem truncated_tail_dropped_witness:
  "\<exists>s. reachable (Map.empty(1 \<mapsto> SAny)) (client_stream [(1, VNil)] @ take 3 (write_frame 1 [192])) s
       \<and> mpc s = MReturned \<and> handled s = [VNil]"
proof -
  obtain s where s: "reachable (Map.empty(1 \<mapsto> SAny)) (client_stream [(1, VNil)] @ take 3 (write_frame 1 [192])) s"
      "mpc s = MReturned"
    using returned_run by blast
  have "handled s = map snd [(1 :: byte, VNil)]"
    by (rule truncated_tail_dropped [OF _ _ _ s]) (simp_all add: exact_def)
  then show ?thesis using s by auto
qed

text \<open>
  C27: a frame whose id is not registered ends the session: the reader closes the
  connection at \<open>UnknownPacketId\<close>, so \<open>loop\<close> handles exactly the frames
  before it, and the well-formed frames that follow it are lost.
\<close>

theorem unknown_id_drops_rest:
  assumes "\<forall>(p, v) \<in> set xs. \<exists>sh. reg p = Some sh \<and> exact sh v \<and> wf_value v \<and> wf_shape sh
                              \<and> Suc (length (encode_value v)) < 2 ^ 32"
    and "reg p = None" "Suc (length payload) < 2 ^ 32"
    and "reachable reg (client_stream xs @ write_frame p payload @ rest) s" "mpc s = MReturned"
  shows "handled s = map snd xs"
  using returned_handled [OF assms(4,5)] read_all_frames_append [OF assms(1)]
    read_all_unknown_id [where reg = reg and p = p and payload = payload and rest = rest, OF assms(2,3)]
  by (simp add: client_stream_def)

theorem unknown_id_drops_rest_witness:
  "\<exists>s. reachable (Map.empty(1 \<mapsto> SAny))
         (client_stream [(1, VNil)] @ write_frame 2 [192] @ write_frame 1 [192]) s
       \<and> mpc s = MReturned \<and> handled s = [VNil]"
proof -
  obtain s where s: "reachable (Map.empty(1 \<mapsto> SAny))
        (client_stream [(1, VNil)] @ write_frame 2 [192] @ write_frame 1 [192]) s" "mpc s = MReturned"
    using returned_run by blast
  have "handled s = map snd [(1 :: byte, VNil)]"
    by (rule unknown_id_drops_rest [OF _ _ _ s]) (simp_all add: exact_def)
  then show ?thesis using s by auto
qed

end
